theory Spec2Isabelle
  imports Complex_Main "HOL-Library.Word"
begin

section \<open>JavaScript values and the 32-bit integer operators\<close>

text \<open>
  The arguments of \<^verbatim>\<open>color\<close>, \<^verbatim>\<open>setPixel\<close> and the background colour of the
  constructor are dynamically typed: a colour name (a string), a number, or nothing.
  Numbers are modelled as mathematical integers (the source only ever computes with
  integral doubles far below \<open>2 ^ 53\<close>); a number that may be \<^verbatim>\<open>undefined\<close> or \<^verbatim>\<open>NaN\<close>
  is an \<open>int option\<close> with \<open>None\<close> for both, which is all the source can tell apart.
\<close>

datatype jsval = Undefined | Num int | Str string

type_synonym jsnum = "int option"

definition truthy :: "jsval \<Rightarrow> bool" where
  "truthy v = (case v of Undefined \<Rightarrow> False | Num n \<Rightarrow> n \<noteq> 0 | Str s \<Rightarrow> s \<noteq> [])"

text \<open>\<^verbatim>\<open>ToInt32\<close>: the operand conversion of \<^verbatim>\<open><<\<close>, \<^verbatim>\<open>|\<close> and \<^verbatim>\<open>~\<close>; \<^verbatim>\<open>undefined\<close> and \<^verbatim>\<open>NaN\<close> convert to 0.\<close>

definition ToInt32 :: "int \<Rightarrow> int" where
  "ToInt32 x = signed_take_bit 31 x"

definition num32 :: "jsnum \<Rightarrow> int" where
  "num32 v = (case v of None \<Rightarrow> 0 | Some x \<Rightarrow> ToInt32 x)"

definition shl :: "int \<Rightarrow> nat \<Rightarrow> int" where
  "shl x k = ToInt32 (ToInt32 x * 2 ^ k)"

definition bor :: "int \<Rightarrow> int \<Rightarrow> int" where
  "bor a b = or (ToInt32 a) (ToInt32 b)"

definition bnot :: "int \<Rightarrow> int" where
  "bnot x = not (ToInt32 x)"

text \<open>Arithmetic on numbers that may be \<^verbatim>\<open>NaN\<close>: \<^verbatim>\<open>+\<close> and \<^verbatim>\<open>%\<close> propagate it.\<close>

definition num_add :: "jsnum \<Rightarrow> jsnum \<Rightarrow> jsnum" where
  "num_add a b = (case a of None \<Rightarrow> None | Some x \<Rightarrow> (case b of None \<Rightarrow> None | Some y \<Rightarrow> Some (x + y)))"

definition num_mod :: "jsnum \<Rightarrow> int \<Rightarrow> jsnum" where
  "num_mod a k = (case a of None \<Rightarrow> None | Some x \<Rightarrow> Some (x mod k))"

section \<open>Byte buffers\<close>

text \<open>
  \<^verbatim>\<open>this.raw\<close> and \<^verbatim>\<open>this.buffer\<close> are two views of one array of bytes:
  \<^verbatim>\<open>this.buffer = Buffer.from(this.raw.buffer, BUF.PNG_HEAD.length, this.buffer_size)\<close>.
  The array is an explicit store from addresses to bytes, and a view is its byte offset
  and its length. A read outside the view is \<^verbatim>\<open>undefined\<close>; a write outside it is
  dropped, as typed arrays do.
\<close>

type_synonym mem = "int \<Rightarrow> 8 word"

type_synonym view = "int \<times> int"

definition load :: "view \<Rightarrow> mem \<Rightarrow> int \<Rightarrow> jsnum" where
  "load v m j = (if 0 \<le> j \<and> j < snd v then Some (uint (m (fst v + j))) else None)"

definition store :: "view \<Rightarrow> int \<Rightarrow> 8 word \<Rightarrow> mem \<Rightarrow> mem" where
  "store v j b m = (if 0 \<le> j \<and> j < snd v then m(fst v + j := b) else m)"

definition ToUint8 :: "jsnum \<Rightarrow> 8 word" where
  "ToUint8 v = (case v of None \<Rightarrow> 0 | Some x \<Rightarrow> word_of_int x)"

definition contents :: "view \<Rightarrow> mem \<Rightarrow> 8 word list" where
  "contents v m = map (\<lambda>j. m (fst v + j)) [0..snd v - 1]"

subsection \<open>The scalar writers of \<^verbatim>\<open>utils\<close>\<close>

text \<open>
  Modelled from the spec: the module \<^verbatim>\<open>./utils\<close> is not among the sources. The spec
  gives its writers as "big-endian 32-bit/16-bit write, little-endian 16-bit write, raw
  byte-sequence write, all operating at a given offset into a pre-sized binary buffer".
  The constructor uses the value a writer returns as the offset after the bytes written.
\<close>

fun writeb :: "view \<Rightarrow> int \<Rightarrow> 8 word list \<Rightarrow> mem \<Rightarrow> mem" where
  "writeb v offs [] m = m"
| "writeb v offs (b # bs) m = writeb v (offs + 1) bs (store v offs b m)"

definition write2 :: "view \<Rightarrow> int \<Rightarrow> int \<Rightarrow> mem \<Rightarrow> mem" where
  "write2 v offs x m =
     store v (offs + 1) (word_of_int x) (store v offs (word_of_int (drop_bit 8 x)) m)"

definition write4 :: "view \<Rightarrow> int \<Rightarrow> int \<Rightarrow> mem \<Rightarrow> mem" where
  "write4 v offs x m =
     store v (offs + 3) (word_of_int x)
       (store v (offs + 2) (word_of_int (drop_bit 8 x))
         (store v (offs + 1) (word_of_int (drop_bit 16 x))
           (store v offs (word_of_int (drop_bit 24 x)) m)))"

definition write2lsb :: "view \<Rightarrow> int \<Rightarrow> int \<Rightarrow> mem \<Rightarrow> mem" where
  "write2lsb v offs x m =
     store v (offs + 1) (word_of_int (drop_bit 8 x)) (store v offs (word_of_int x) m)"

subsection \<open>The constants of \<^verbatim>\<open>BUF\<close>\<close>

text \<open>
  Modelled from the spec: the module \<^verbatim>\<open>./buf\<close> is not among the sources. The spec
  fixes an 8-byte PNG signature, 4-byte chunk type tags, the byte pair "8-bit indexed
  colour", the stored-block flag bytes (1 = final block, 0 = more follow) and the
  fallback palette index 0 that \<^verbatim>\<open>color\<close> returns as \<^verbatim>\<open>BUF.CODE_NUL\<close>.
\<close>

definition PNG_HEAD :: "8 word list" where
  "PNG_HEAD = [0x89, 0x50, 0x4e, 0x47, 0x0d, 0x0a, 0x1a, 0x0a]"

definition PNG_IHDR :: "8 word list" where
  "PNG_IHDR = [0x49, 0x48, 0x44, 0x52]"

definition PNG_PLTE :: "8 word list" where
  "PNG_PLTE = [0x50, 0x4c, 0x54, 0x45]"

definition PNG_tRNS :: "8 word list" where
  "PNG_tRNS = [0x74, 0x52, 0x4e, 0x53]"

definition PNG_IDAT :: "8 word list" where
  "PNG_IDAT = [0x49, 0x44, 0x41, 0x54]"

definition PNG_IEND :: "8 word list" where
  "PNG_IEND = [0x49, 0x45, 0x4e, 0x44]"

definition CODE_X08X03 :: "8 word list" where
  "CODE_X08X03 = [0x08, 0x03]"

definition CODE_NUL :: "8 word list" where
  "CODE_NUL = [0x00]"

definition CODE_SOH :: "8 word list" where
  "CODE_SOH = [0x01]"

text \<open>
  Modelled from the spec: \<^verbatim>\<open>color\<close> returns \<^verbatim>\<open>BUF.CODE_NUL\<close> itself when the palette is
  full, which the spec calls "the fallback index 0"; stored into the buffer, it is the
  byte 0.
\<close>

definition CODE_NUL_index :: int where
  "CODE_NUL_index = 0"

subsection \<open>The external collaborators\<close>

text \<open>
  The colour-name parser \<^verbatim>\<open>./rgba\<close>, the CRC-32 function and the Base64 encoding are
  outside the sources, and so is the value of the two-byte zlib header
  \<^verbatim>\<open>BUF.PNG_DEFLATE_HEADER\<close>. They are parameters of the model: every theorem holds for
  any parser, any checksum function and any header value. The checksum function takes
  what the code can read of the region (type tag and payload of a chunk).
\<close>

record collab =
  RGBA :: "string \<Rightarrow> (int \<times> int \<times> int \<times> int) option"
  crc :: "jsnum list \<Rightarrow> int"
  base64 :: "8 word list \<Rightarrow> string"
  PNG_DEFLATE_HEADER :: int

text \<open>
  Modelled from the spec: \<^verbatim>\<open>utils.crc32\<close> is not among the sources. "Given a buffer
  region covering a chunk's 4-byte type tag plus its payload, computes and appends the
  4-byte checksum immediately after that region"; the chunk starts at \<open>offs\<close> with its
  4-byte length field and is \<open>size\<close> bytes long.
\<close>

definition crc32 :: "collab \<Rightarrow> view \<Rightarrow> int \<Rightarrow> int \<Rightarrow> mem \<Rightarrow> mem" where
  "crc32 e v offs sz m =
     write4 v (offs + sz - 4) (crc e (map (load v m) [offs + 4..offs + sz - 5])) m"

section \<open>The image object\<close>

record png =
  width :: int
  height :: int
  depth :: int
  bg :: jsval
  pix_size :: int
  data_size :: int
  ihdr_offs :: int
  ihdr_size :: int
  plte_offs :: int
  plte_size :: int
  trns_offs :: int
  trns_size :: int
  idat_offs :: int
  idat_size :: int
  iend_offs :: int
  iend_size :: int
  buffer_size :: int
  raw :: view
  buffer :: view
  heap :: mem
  palette :: "int \<rightharpoonup> int"
  pindex :: int
  console :: "string list"

datatype error = InvalidColor

subsection \<open>Constructor: the layout (lines 9 to 36)\<close>

definition init :: "int \<Rightarrow> int \<Rightarrow> jsnum \<Rightarrow> jsval \<Rightarrow> png" where
  "init w h d b =
    (let depth = (case d of None \<Rightarrow> 8 | Some n \<Rightarrow> if n = 0 then 8 else n);
         pix_size = h * (w + 1);
         data_size = 2 + pix_size + 5 * ((0xfffe + pix_size) div 0xffff) + 4;
         ihdr_offs = 0;
         ihdr_size = 4 + 4 + 13 + 4;
         plte_offs = ihdr_offs + ihdr_size;
         plte_size = 4 + 4 + 3 * depth + 4;
         trns_offs = plte_offs + plte_size;
         trns_size = 4 + 4 + depth + 4;
         idat_offs = trns_offs + trns_size;
         idat_size = 4 + 4 + data_size + 4;
         iend_offs = idat_offs + idat_size;
         iend_size = 4 + 4 + 4;
         buffer_size = iend_offs + iend_size
     in \<lparr> width = w, height = h, depth = depth, bg = b,
          pix_size = pix_size, data_size = data_size,
          ihdr_offs = ihdr_offs, ihdr_size = ihdr_size,
          plte_offs = plte_offs, plte_size = plte_size,
          trns_offs = trns_offs, trns_size = trns_size,
          idat_offs = idat_offs, idat_size = idat_size,
          iend_offs = iend_offs, iend_size = iend_size,
          buffer_size = buffer_size,
          raw = (0, int (length PNG_HEAD) + buffer_size),
          buffer = (int (length PNG_HEAD), buffer_size),
          heap = (\<lambda>_. 0),
          palette = Map.empty,
          pindex = 0,
          console = [] \<rparr>)"

subsection \<open>Constructor: the chunk skeleton (lines 39 to 61)\<close>

definition skeleton :: "collab \<Rightarrow> png \<Rightarrow> mem" where
  "skeleton e s =
    (let b = buffer s;
         m1 = write4 b (ihdr_offs s) (ihdr_size s - 12) (heap s);
         m2 = writeb b (ihdr_offs s + 4) PNG_IHDR m1;
         m3 = write4 b (ihdr_offs s + 4 * 2) (width s) m2;
         m4 = write4 b (ihdr_offs s + 4 * 3) (height s) m3;
         m5 = writeb b (ihdr_offs s + 4 * 4) CODE_X08X03 m4;
         m6 = write4 b (plte_offs s) (plte_size s - 12) m5;
         m7 = writeb b (plte_offs s + 4) PNG_PLTE m6;
         m8 = write4 b (trns_offs s) (trns_size s - 12) m7;
         m9 = writeb b (trns_offs s + 4) PNG_tRNS m8;
         m10 = write4 b (idat_offs s) (idat_size s - 12) m9;
         m11 = writeb b (idat_offs s + 4) PNG_IDAT m10;
         m12 = write4 b (iend_offs s) (iend_size s - 12) m11;
         m13 = writeb b (iend_offs s + 4) PNG_IEND m12;
         m14 = writeb (raw s) 0 PNG_HEAD m13
     in write2 b (idat_offs s + 8) (PNG_DEFLATE_HEADER e) m14)"

subsection \<open>Constructor: the stored-block headers (lines 64 to 77)\<close>

text \<open>
  One iteration of the loop computes the flag byte, the length and the offset of a
  header, and writes the flag, the length and its complement there. The loop is
  modelled as the list of the headers it computes, in order, which are then written.
  \<open>i << 16\<close> and \<open>i << 2\<close> are 32-bit shifts: for a pixel region of \<open>2 ^ 31 - 65536\<close>
  bytes or more the loop condition never fails, and the loop has no result.
\<close>

type_synonym header = "int \<times> 8 word list \<times> int"

definition block_header :: "int \<Rightarrow> int \<Rightarrow> int \<Rightarrow> header" where
  "block_header idat pix i =
    (let sb = (if i + 0xffff < pix then (0xffff, CODE_NUL)
               else (pix - shl i 16 - i, CODE_SOH));
         offs = idat + 8 + 2 + shl i 16 + shl i 2
     in (offs, snd sb, fst sb))"

partial_function (option) block_headers :: "int \<Rightarrow> int \<Rightarrow> int \<Rightarrow> header list option" where
  "block_headers idat pix i =
    (if shl i 16 - 1 < pix
     then Option.bind (block_headers idat pix (i + 1))
            (\<lambda>hs. Some (block_header idat pix i # hs))
     else Some [])"

declare block_headers.simps [code]

definition write_header :: "view \<Rightarrow> header \<Rightarrow> mem \<Rightarrow> mem" where
  "write_header v h m =
    (case h of (offs, bits, sz) \<Rightarrow>
       write2lsb v (offs + int (length bits) + 2) (bnot sz)
         (write2lsb v (offs + int (length bits)) sz
           (writeb v offs bits m)))"

definition write_headers :: "view \<Rightarrow> header list \<Rightarrow> mem \<Rightarrow> mem" where
  "write_headers v hs m = foldl (\<lambda>m h. write_header v h m) m hs"

subsection \<open>\<^verbatim>\<open>index\<close> (lines 84 to 88)\<close>

text \<open>\<open>Math.floor(i / 0xffff + 1)\<close> on an integer \<open>i\<close> is \<open>i div 65535 + 1\<close>.\<close>

definition index :: "png \<Rightarrow> int \<Rightarrow> int \<Rightarrow> int" where
  "index s x y =
    (let i = y * (width s + 1) + x + 1
     in idat_offs s + 8 + 2 + 5 * (i div 0xffff + 1) + i)"

subsection \<open>\<^verbatim>\<open>color\<close> (lines 91 to 124)\<close>

text \<open>
  The result is the value returned or the error thrown, and the object as the call
  leaves it. \<open>resolve\<close> is the first half of the method (lines 92 to 104): a colour
  name goes through the parser and fails when the parser knows no such name; otherwise
  the first argument is the red component, and \<open>alpha >= 0 ? alpha : 255\<close> is 255
  for a missing alpha. \<open>register\<close> is the second half (lines 106 to 123), on the four
  components. The diagnostic of \<^verbatim>\<open>console.warn\<close> is appended to \<open>console\<close>.
\<close>

definition color_key :: "jsnum \<Rightarrow> jsnum \<Rightarrow> jsnum \<Rightarrow> jsnum \<Rightarrow> int" where
  "color_key red green blue alpha =
     bor (shl (bor (shl (bor (shl (num32 alpha) 8) (num32 red)) 8) (num32 green)) 8) (num32 blue)"

definition register :: "jsnum \<Rightarrow> jsnum \<Rightarrow> jsnum \<Rightarrow> jsnum \<Rightarrow> png \<Rightarrow> (error + int) \<times> png" where
  "register red green blue alpha s =
    (let color = color_key red green blue alpha in
     if palette s color = None then
       if pindex s = depth s then
         (Inr CODE_NUL_index,
          s\<lparr>console := console s @ [''node-pnglib: depth is not enough, set up it for more'']\<rparr>)
       else
         (let ndx = plte_offs s + 8 + 3 * pindex s;
              m1 = store (buffer s) (ndx + 0) (ToUint8 red) (heap s);
              m2 = store (buffer s) (ndx + 1) (ToUint8 green) m1;
              m3 = store (buffer s) (ndx + 2) (ToUint8 blue) m2;
              m4 = store (buffer s) (trns_offs s + 8 + pindex s) (ToUint8 alpha) m3
          in (Inr (pindex s),
              s\<lparr>heap := m4, palette := (palette s)(color \<mapsto> pindex s), pindex := pindex s + 1\<rparr>))
     else (Inr (the (palette s color)), s))"

definition resolve :: "collab \<Rightarrow> jsval \<Rightarrow> jsnum \<Rightarrow> jsnum \<Rightarrow> jsnum \<Rightarrow> (jsnum \<times> jsnum \<times> jsnum \<times> jsnum) option" where
  "resolve e red green blue alpha =
    (case red of
       Str name \<Rightarrow>
         (case RGBA e name of
            None \<Rightarrow> None
          | Some (r, g, b, a) \<Rightarrow> Some (Some r, Some g, Some b, Some a))
     | Num r \<Rightarrow>
         Some (Some r, green, blue,
               (case alpha of None \<Rightarrow> Some 255 | Some a \<Rightarrow> if a \<ge> 0 then Some a else Some 255))
     | Undefined \<Rightarrow>
         Some (None, green, blue,
               (case alpha of None \<Rightarrow> Some 255 | Some a \<Rightarrow> if a \<ge> 0 then Some a else Some 255)))"

definition color :: "collab \<Rightarrow> jsval \<Rightarrow> jsnum \<Rightarrow> jsnum \<Rightarrow> jsnum \<Rightarrow> png \<Rightarrow> (error + int) \<times> png" where
  "color e red green blue alpha s =
    (case resolve e red green blue alpha of
       None \<Rightarrow> (Inl InvalidColor, s)
     | Some (r, g, b, a) \<Rightarrow> register r g b a s)"

subsection \<open>Constructor (lines 8 to 81)\<close>

definition constructor :: "collab \<Rightarrow> int \<Rightarrow> int \<Rightarrow> jsnum \<Rightarrow> jsval \<Rightarrow> (error + png) option" where
  "constructor e w h d b =
    (let s0 = init w h d b;
         s1 = s0\<lparr>heap := skeleton e s0\<rparr>
     in case block_headers (idat_offs s1) (pix_size s1) 0 of
          None \<Rightarrow> None
        | Some hs \<Rightarrow>
            (let s2 = s1\<lparr>heap := write_headers (buffer s1) hs (heap s1)\<rparr>;
                 r = (if truthy (bg s2) then color e (bg s2) None None None s2
                      else color e (Num 0) (Some 0) (Some 0) (Some 0) s2)
             in case fst r of Inl err \<Rightarrow> Some (Inl err) | Inr _ \<Rightarrow> Some (Inr (snd r))))"

subsection \<open>\<^verbatim>\<open>setPixel\<close> (lines 126 to 129)\<close>

text \<open>
  Coordinates are integers, on which \<open>Math.floor\<close> is the identity. The element
  reference \<open>this.buffer[this.index(..)]\<close> is evaluated before \<open>this.color(rgba)\<close>;
  when \<^verbatim>\<open>color\<close> throws, nothing is stored.
\<close>

definition setPixel :: "collab \<Rightarrow> int \<Rightarrow> int \<Rightarrow> jsval \<Rightarrow> png \<Rightarrow> (error + unit) \<times> png" where
  "setPixel e x y rgba s =
    (if x < 0 \<or> y < 0 \<or> x \<ge> width s \<or> y \<ge> height s then (Inr (), s)
     else
       (let j = index s x y;
            r = color e rgba None None None s
        in case fst r of
             Inl err \<Rightarrow> (Inl err, snd r)
           | Inr c \<Rightarrow> (Inr (), (snd r)\<lparr>heap := store (buffer (snd r)) j (word_of_int c) (heap (snd r))\<rparr>)))"

subsection \<open>\<^verbatim>\<open>deflate\<close>, \<^verbatim>\<open>getBuffer\<close> and \<^verbatim>\<open>getBase64\<close> (lines 132 to 177)\<close>

text \<open>
  The Adler-32 sums \<open>s1\<close> and \<open>s2\<close> are numbers that become \<^verbatim>\<open>NaN\<close> once a read
  falls outside the buffer. \<open>adler_addr\<close> is the element index of the read at the
  logical position of \<open>(x, y)\<close>; the two nested loops run \<open>y\<close> over \<open>0 .. height - 1\<close>
  and, within each row, \<open>x\<close> over \<open>-1 .. width - 1\<close>.
\<close>

definition BASE :: int where
  "BASE = 65521"

definition NMAX :: int where
  "NMAX = 5552"

definition adler_addr :: "png \<Rightarrow> int \<Rightarrow> int \<Rightarrow> int" where
  "adler_addr s x y =
    (let baseOffset = idat_offs s + 8 + 2 + 5;
         i3 = y * (width s + 1) + x + 1
     in baseOffset * (i3 div 0xffff + 1) + i3)"

definition adler_step :: "png \<Rightarrow> int \<Rightarrow> jsnum \<times> jsnum \<times> int \<Rightarrow> int \<Rightarrow> jsnum \<times> jsnum \<times> int" where
  "adler_step s y acc x =
    (case acc of (s1, s2, n) \<Rightarrow>
      (let s1' = num_add s1 (load (buffer s) (heap s) (adler_addr s x y));
           s2' = num_add s2 s1'
       in if n - 1 = 0 then (num_mod s1' BASE, num_mod s2' BASE, NMAX)
          else (s1', s2', n - 1)))"

definition adler_row :: "png \<Rightarrow> jsnum \<times> jsnum \<times> int \<Rightarrow> int \<Rightarrow> jsnum \<times> jsnum \<times> int" where
  "adler_row s acc y = foldl (adler_step s y) acc [-1..width s - 1]"

definition adler_walk :: "png \<Rightarrow> jsnum \<times> jsnum \<times> int" where
  "adler_walk s = foldl (adler_row s) (Some 1, Some 0, NMAX) [0..height s - 1]"

definition adler32 :: "png \<Rightarrow> int" where
  "adler32 s =
    (case adler_walk s of (s1, s2, n) \<Rightarrow>
       bor (shl (num32 (num_mod s2 BASE)) 16) (num32 (num_mod s1 BASE)))"

definition deflate :: "collab \<Rightarrow> png \<Rightarrow> 8 word list \<times> png" where
  "deflate e s =
    (let b = buffer s;
         offset = idat_offs s + idat_size s - 8;
         m1 = write4 b offset (adler32 s) (heap s);
         m2 = crc32 e b (ihdr_offs s) (ihdr_size s) m1;
         m3 = crc32 e b (plte_offs s) (plte_size s) m2;
         m4 = crc32 e b (trns_offs s) (trns_size s) m3;
         m5 = crc32 e b (idat_offs s) (idat_size s) m4;
         m6 = crc32 e b (iend_offs s) (iend_size s) m5
     in (contents (raw s) m6, s\<lparr>heap := m6\<rparr>))"

definition getBuffer :: "collab \<Rightarrow> png \<Rightarrow> 8 word list \<times> png" where
  "getBuffer e s = deflate e s"

definition getBase64 :: "collab \<Rightarrow> png \<Rightarrow> string \<times> png" where
  "getBase64 e s = (let r = deflate e s in (base64 e (fst r), snd r))"

section \<open>Sequences of calls\<close>

text \<open>
  The public methods are the only entry points. \<open>perform\<close> is the object after one
  call, whether the call returns or throws; \<open>run\<close> is the object after a sequence of
  calls on it. \<open>layout_of\<close> forgets the four fields a method can change.
\<close>

datatype call =
    Color jsval jsnum jsnum jsnum
  | SetPixel int int jsval
  | GetBuffer
  | GetBase64

fun perform :: "collab \<Rightarrow> png \<Rightarrow> call \<Rightarrow> png" where
  "perform e s (Color red green blue alpha) = snd (color e red green blue alpha s)"
| "perform e s (SetPixel x y rgba) = snd (setPixel e x y rgba s)"
| "perform e s GetBuffer = snd (getBuffer e s)"
| "perform e s GetBase64 = snd (getBase64 e s)"

definition run :: "collab \<Rightarrow> call list \<Rightarrow> png \<Rightarrow> png" where
  "run e cs s = foldl (perform e) s cs"

definition layout_of :: "png \<Rightarrow> png" where
  "layout_of s = s\<lparr>heap := (\<lambda>_. 0), palette := Map.empty, pindex := 0, console := []\<rparr>"

text \<open>A parser, a checksum and an encoding to run the model on concrete inputs.\<close>

definition demo :: collab where
  "demo = \<lparr> RGBA = (\<lambda>name. if name = ''black'' then Some (0, 0, 0, 255)
                      else if name = ''white'' then Some (255, 255, 255, 255) else None),
            crc = (\<lambda>bytes. sum_list (map num32 bytes)),
            base64 = (\<lambda>bytes. []),
            PNG_DEFLATE_HEADER = 0x7801 \<rparr>"

section \<open>Predicates of the statements\<close>

text \<open>
  \<open>background\<close> is the colour the constructor registers (lines 79 and 80): the
  components of \<open>color(bg)\<close> when \<open>bg\<close> is truthy, of \<open>color(0, 0, 0, 0)\<close> otherwise.
\<close>

definition background :: "collab \<Rightarrow> jsval \<Rightarrow> (jsnum \<times> jsnum \<times> jsnum \<times> jsnum) option" where
  "background e b =
     (if truthy b then resolve e b None None None else resolve e (Num 0) (Some 0) (Some 0) (Some 0))"

text \<open>The next index counts the colours of the palette.\<close>

definition counted :: "png \<Rightarrow> bool" where
  "counted s = (finite (dom (palette s)) \<and> pindex s = int (card (dom (palette s))))"

text \<open>
  An image is well formed when its layout is the one the constructor computes from its
  width, height and capacity, all at least 1; it is started once the background colour
  is registered and the palette is within its capacity.
\<close>

definition wf :: "png \<Rightarrow> bool" where
  "wf s = (layout_of s = init (width s) (height s) (Some (depth s)) (bg s) \<and>
           1 \<le> width s \<and> 1 \<le> height s \<and> 1 \<le> depth s)"

definition started :: "png \<Rightarrow> bool" where
  "started s = (wf s \<and> 1 \<le> pindex s \<and> pindex s \<le> depth s)"

text \<open>
  Palette index 0 belongs to the colour \<open>(r, g, b, a)\<close>: its key has index 0, no other
  key has, and the first entries of the PLTE and tRNS chunk bodies hold its bytes.
\<close>

definition slot0 :: "png \<Rightarrow> jsnum \<Rightarrow> jsnum \<Rightarrow> jsnum \<Rightarrow> jsnum \<Rightarrow> bool" where
  "slot0 s r g b a =
    (palette s (color_key r g b a) = Some 0 \<and>
     (\<forall>k. k \<noteq> color_key r g b a \<longrightarrow> palette s k \<noteq> Some 0) \<and>
     load (buffer s) (heap s) (plte_offs s + 8) = Some (uint (ToUint8 r)) \<and>
     load (buffer s) (heap s) (plte_offs s + 8 + 1) = Some (uint (ToUint8 g)) \<and>
     load (buffer s) (heap s) (plte_offs s + 8 + 2) = Some (uint (ToUint8 b)) \<and>
     load (buffer s) (heap s) (trns_offs s + 8) = Some (uint (ToUint8 a)))"

text \<open>
  The offsets \<open>deflate\<close> writes to: the four bytes of the Adler-32 trailer at
  \<open>idat_offs + idat_size - 8\<close>, and the last four bytes of each of the five chunks.
\<close>

definition checksum_fields :: "png \<Rightarrow> int set" where
  "checksum_fields s =
     {idat_offs s + idat_size s - 8..idat_offs s + idat_size s - 5} \<union>
     {ihdr_offs s + ihdr_size s - 4..ihdr_offs s + ihdr_size s - 1} \<union>
     {plte_offs s + plte_size s - 4..plte_offs s + plte_size s - 1} \<union>
     {trns_offs s + trns_size s - 4..trns_offs s + trns_size s - 1} \<union>
     {idat_offs s + idat_size s - 4..idat_offs s + idat_size s - 1} \<union>
     {iend_offs s + iend_size s - 4..iend_offs s + iend_size s - 1}"

section \<open>The constructor returns, and its layout\<close>

lemma shl_small: "0 \<le> i \<Longrightarrow> i \<le> 32767 \<Longrightarrow> shl i 16 = i * 65536"
  unfolding shl_def ToInt32_def
  by (simp add: signed_take_bit_int_eq_self)

lemma block_headers_returns:
  assumes "pix \<le> 2147418111"
  shows "0 \<le> i \<Longrightarrow> i \<le> 32767 \<Longrightarrow> \<exists>hs. block_headers idat pix i = Some hs"
proof (induction "nat (32767 - i)" arbitrary: i)
  case 0
  then have i: "i = 32767" by simp
  have "shl i 16 = 2147418112" using i by (simp add: shl_small)
  then have "\<not> shl i 16 - 1 < pix" using assms by simp
  then show ?case by (subst block_headers.simps) simp
next
  case (Suc k)
  then have i: "0 \<le> i" "i < 32767" by simp_all
  have "k = nat (32767 - (i + 1))" using Suc.hyps(2) by simp
  then obtain hs where "block_headers idat pix (i + 1) = Some hs"
    using Suc.hyps(1) [of "i + 1"] i by auto
  then show ?case by (subst block_headers.simps) simp
qed

lemma length_contents: "0 \<le> snd v \<Longrightarrow> int (length (contents v m)) = snd v"
  by (simp add: contents_def)

lemma layout_of_heap [simp]: "layout_of (s\<lparr>heap := m\<rparr>) = layout_of s"
  by (simp add: layout_of_def)

lemma layout_of_register: "layout_of (snd (register r g b a s)) = layout_of s"
  by (simp add: register_def layout_of_def Let_def)

lemma layout_of_color: "layout_of (snd (color e red green blue alpha s)) = layout_of s"
  by (simp add: color_def layout_of_register split: option.splits prod.splits)

lemma layout_of_setPixel: "layout_of (snd (setPixel e x y rgba s)) = layout_of s"
  by (simp add: setPixel_def Let_def layout_of_color split: sum.splits)

lemma layout_of_deflate: "layout_of (snd (deflate e s)) = layout_of s"
  by (simp add: deflate_def Let_def)

lemma layout_of_perform: "layout_of (perform e s c) = layout_of s"
  by (cases c) (simp_all add: layout_of_color layout_of_setPixel layout_of_deflate getBuffer_def getBase64_def Let_def)

lemma layout_of_run: "layout_of (run e cs s) = layout_of s"
  unfolding run_def by (induction cs arbitrary: s) (simp_all add: layout_of_perform)

lemma layout_of_init: "layout_of (init w h d b) = init w h d b"
  by (simp add: init_def layout_of_def Let_def)

lemma layout_of_constructor:
  assumes "constructor e w h d b = Some (Inr s)"
  shows "layout_of s = init w h d b"
  using assms
  by (auto simp: constructor_def Let_def layout_of_color layout_of_init split: option.splits sum.splits if_splits)

lemma init_depth: "init w h (Some (depth (init w h d b))) b = init w h d b"
  by (simp add: init_def Let_def split: option.splits)

lemma layout_fields:
  "width s = width (layout_of s)" "height s = height (layout_of s)"
  "depth s = depth (layout_of s)" "bg s = bg (layout_of s)"
  by (simp_all add: layout_of_def)

lemma init_fields:
  "width (init w h d b) = w" "height (init w h d b) = h" "bg (init w h d b) = b"
  by (simp_all add: init_def Let_def)

lemma constructor_result:
  assumes "constructor e w h d b = Some (Inr s)"
  shows "\<exists>hs r g bl a.
           block_headers (idat_offs (init w h d b)) (pix_size (init w h d b)) 0 = Some hs \<and>
           background e b = Some (r, g, bl, a) \<and>
           s = snd (register r g bl a
                 ((init w h d b)\<lparr>heap := write_headers (buffer (init w h d b)) hs (skeleton e (init w h d b))\<rparr>))"
  using assms
  by (auto simp: constructor_def Let_def background_def color_def init_fields
      split: option.splits sum.splits if_splits)

lemma fst_register: "\<exists>i. fst (register r g b a s) = Inr i"
  by (simp add: register_def Let_def)

lemma constructor_alt:
  "constructor e w h d b =
    (case block_headers (idat_offs (init w h d b)) (pix_size (init w h d b)) 0 of
       None \<Rightarrow> None
     | Some hs \<Rightarrow>
         (case background e b of
            None \<Rightarrow> Some (Inl InvalidColor)
          | Some (r, g, bl, a) \<Rightarrow>
              Some (Inr (snd (register r g bl a
                ((init w h d b)\<lparr>heap := write_headers (buffer (init w h d b)) hs (skeleton e (init w h d b))\<rparr>))))))"
proof (cases "block_headers (idat_offs (init w h d b)) (pix_size (init w h d b)) 0")
  case None
  then show ?thesis by (simp add: constructor_def Let_def)
next
  case (Some hs)
  let ?t = "(init w h d b)\<lparr>heap := write_headers (buffer (init w h d b)) hs (skeleton e (init w h d b))\<rparr>"
  have c: "constructor e w h d b =
    (case fst (if truthy b then color e b None None None ?t
               else color e (Num 0) (Some 0) (Some 0) (Some 0) ?t) of
       Inl err \<Rightarrow> Some (Inl err)
     | Inr x \<Rightarrow> Some (Inr (snd (if truthy b then color e b None None None ?t
               else color e (Num 0) (Some 0) (Some 0) (Some 0) ?t))))"
    using Some by (simp add: constructor_def Let_def init_fields split: sum.splits)
  show ?thesis
  proof (cases "background e b")
    case None
    then show ?thesis
      unfolding c using Some by (simp add: background_def color_def split: if_splits)
  next
    case (Some q)
    obtain r g bl a where q: "q = (r, g, bl, a)" by (cases q) auto
    obtain i where i: "fst (register r g bl a ?t) = Inr i" using fst_register by blast
    show ?thesis
      unfolding c using Some \<open>block_headers _ _ _ = Some hs\<close> i
      by (simp add: q background_def color_def split: if_splits)
  qed
qed

lemma constructor_returns:
  assumes "h * (w + 1) \<le> 2147418111" and "background e b \<noteq> None"
  shows "\<exists>s. constructor e w h d b = Some (Inr s)"
proof -
  let ?s0 = "init w h d b"
  have p: "pix_size ?s0 = h * (w + 1)" by (simp add: init_def Let_def)
  obtain hs where hs: "block_headers (idat_offs ?s0) (pix_size ?s0) 0 = Some hs"
    using block_headers_returns [of "pix_size ?s0" 0 "idat_offs ?s0"] assms(1) p by auto
  obtain q where c: "background e b = Some q"
    using assms(2) by auto
  show ?thesis
    unfolding constructor_alt using hs c by (simp split: prod.splits)
qed

lemma constructor_palette:
  assumes "constructor e w h d b = Some (Inr s)"
  shows "\<exists>r g bl a. background e b = Some (r, g, bl, a) \<and> pindex s = 1 \<and>
           palette s = [color_key r g bl a \<mapsto> 0]"
proof -
  let ?i = "init w h d b"
  obtain hs r g bl a where bgc: "background e b = Some (r, g, bl, a)"
    and s: "s = snd (register r g bl a (?i\<lparr>heap := write_headers (buffer ?i) hs (skeleton e ?i)\<rparr>))"
    using constructor_result [OF assms(1)] by blast
  have "pindex s = 1 \<and> palette s = [color_key r g bl a \<mapsto> 0]"
    unfolding s by (simp add: register_def Let_def init_def split: option.splits)
  then show ?thesis using bgc by blast
qed

lemma constructor_fields:
  assumes "constructor e w h d b = Some (Inr s)"
  shows "width s = w" "height s = h" "bg s = b" "depth s = depth (init w h d b)"
    "idat_offs s = idat_offs (init w h d b)" "pix_size s = pix_size (init w h d b)"
proof -
  have L: "layout_of s = init w h d b" using assms(1) by (rule layout_of_constructor)
  show "width s = w" "height s = h" "bg s = b" "depth s = depth (init w h d b)"
    by (simp_all add: layout_fields [of s] L init_fields)
  have "idat_offs s = idat_offs (layout_of s)" "pix_size s = pix_size (layout_of s)"
    by (simp_all add: layout_of_def)
  then show "idat_offs s = idat_offs (init w h d b)" "pix_size s = pix_size (init w h d b)"
    by (simp_all add: L)
qed

section \<open>The header loop and the two address formulas\<close>

lemma shl_bound: "shl i 16 \<le> 2147418112"
proof -
  have d: "(65536 :: int) dvd signed_take_bit 31 (signed_take_bit 31 i * 65536)"
  proof -
    have "take_bit 16 (signed_take_bit 31 (signed_take_bit 31 i * 65536)) = take_bit 16 (signed_take_bit 31 i * (65536 :: int))"
      by (simp add: take_bit_signed_take_bit)
    also have "\<dots> = 0"
      by (simp add: take_bit_eq_mod)
    finally show ?thesis by (simp add: take_bit_eq_mod mod_eq_0_iff_dvd)
  qed
  have u: "signed_take_bit 31 (signed_take_bit 31 i * 65536) < (2147483648 :: int)"
    using signed_take_bit_int_less_exp [of 31 "signed_take_bit 31 i * 65536"] by simp
  obtain q where q: "signed_take_bit 31 (signed_take_bit 31 i * 65536) = 65536 * q"
    using d by (auto simp: dvd_def)
  have "65536 * q < 65536 * 32768" using u q by simp
  then have "q < 32768" by simp
  then have "65536 * q \<le> 65536 * 32767" by simp
  then show ?thesis by (simp add: shl_def ToInt32_def q)
qed

lemma block_headers_Some_bound:
  assumes "block_headers idat pix i = Some hs"
  shows "pix < 2147418112"
proof (rule block_headers.raw_induct [where P = "\<lambda>_ p _ _. p < 2147418112", OF _ assms])
  fix f :: "int \<Rightarrow> int \<Rightarrow> int \<Rightarrow> header list option" and idat' pix' i' hs'
  assume IH: "\<And>a p b y. f a p b = Some y \<Longrightarrow> p < 2147418112"
    and eq: "(if shl i' 16 - 1 < pix'
              then Option.bind (f idat' pix' (i' + 1)) (\<lambda>hs. Some (block_header idat' pix' i' # hs))
              else Some []) = Some hs'"
  show "pix' < 2147418112"
  proof (cases "shl i' 16 - 1 < pix'")
    case True
    then obtain hs'' where "f idat' pix' (i' + 1) = Some hs''"
      using eq by (auto simp: bind_eq_Some_conv)
    then show ?thesis by (rule IH)
  next
    case False
    then show ?thesis using shl_bound [of i'] by simp
  qed
qed

lemma block_headers_diverges:
  "2147418112 \<le> pix \<Longrightarrow> block_headers idat pix i = None"
  using block_headers_Some_bound [of idat pix i] by (cases "block_headers idat pix i") auto

lemma headers_small:
  assumes "0 \<le> pix" and "pix \<le> 65535"
  shows "block_headers idat pix 0 = Some [(idat + 10, CODE_SOH, pix)]"
  using assms by (simp add: block_headers.simps block_header_def shl_def ToInt32_def)

lemma headers_131072:
  "block_headers idat 131072 0 =
     Some [(idat + 10, CODE_NUL, 65535), (idat + 65550, CODE_NUL, 65535), (idat + 131090, CODE_NUL, 65535)]"
  by (simp add: block_headers.simps block_header_def shl_def ToInt32_def)

lemma headers_65536:
  "block_headers idat 65536 0 =
     Some [(idat + 10, CODE_NUL, 65535), (idat + 65550, CODE_SOH, - 1)]"
  by (simp add: block_headers.simps block_header_def shl_def ToInt32_def)

lemma headers_131071:
  "block_headers idat 131071 0 =
     Some [(idat + 10, CODE_NUL, 65535), (idat + 65550, CODE_NUL, 65535)]"
  by (simp add: block_headers.simps block_header_def shl_def ToInt32_def)

lemma adler_addr_small:
  assumes "0 \<le> y * (width s + 1) + x + 1" and "y * (width s + 1) + x + 1 < 65535"
  shows "adler_addr s x y = index s x y"
  using assms by (simp add: adler_addr_def index_def Let_def)

section \<open>The palette counts its colours\<close>

lemma counted_register: "counted s \<Longrightarrow> counted (snd (register r g b a s))"
  by (auto simp: counted_def register_def Let_def card_insert_if domIff)

lemma counted_color: "counted s \<Longrightarrow> counted (snd (color e red green blue alpha s))"
  by (auto simp: color_def counted_register split: option.splits)

lemma counted_heap [simp]: "counted (s\<lparr>heap := m\<rparr>) = counted s"
  by (simp add: counted_def)

lemma counted_setPixel: "counted s \<Longrightarrow> counted (snd (setPixel e x y rgba s))"
  by (auto simp: setPixel_def Let_def counted_color split: sum.splits)

lemma counted_deflate: "counted s \<Longrightarrow> counted (snd (deflate e s))"
  by (simp add: deflate_def Let_def)

lemma counted_perform: "counted s \<Longrightarrow> counted (perform e s c)"
  by (cases c) (simp_all add: counted_color counted_setPixel counted_deflate getBuffer_def getBase64_def Let_def)

lemma counted_run: "counted s \<Longrightarrow> counted (run e cs s)"
  unfolding run_def by (induction cs arbitrary: s) (simp_all add: counted_perform)

lemma counted_init: "counted (init w h d b)"
  by (simp add: counted_def init_def Let_def)

lemma counted_constructor:
  assumes "constructor e w h d b = Some (Inr s)"
  shows "counted s"
proof -
  have "\<And>s0 red green blue alpha. counted s0 \<Longrightarrow> counted (snd (color e red green blue alpha s0))"
    by (rule counted_color)
  then show ?thesis
    using assms counted_init [of w h d b]
    by (auto simp: constructor_def Let_def split: option.splits sum.splits if_splits)
qed

section \<open>Reads after writes\<close>

lemma load_store:
  "load v (store v j b m) a = (if a = j \<and> 0 \<le> j \<and> j < snd v then Some (uint b) else load v m a)"
  by (simp add: load_def store_def)

lemma load_write4_other:
  "a < offs \<or> offs + 3 < a \<Longrightarrow> load v (write4 v offs x m) a = load v m a"
  by (auto simp: write4_def load_store)

lemma load_crc32_other:
  "a < offs + sz - 4 \<or> offs + sz - 1 < a \<Longrightarrow> load v (crc32 e v offs sz m) a = load v m a"
  by (simp add: crc32_def load_write4_other)

lemma store_absorb: "load v m j = Some (uint b) \<Longrightarrow> store v j b m = m"
  by (auto simp: load_def store_def word_uint_eqI split: if_splits)

lemma load_write4_at:
  assumes "0 \<le> offs" and "offs + 3 < snd v"
  shows "load v (write4 v offs x m) offs = Some (uint (word_of_int (drop_bit 24 x) :: 8 word))"
    and "load v (write4 v offs x m) (offs + 1) = Some (uint (word_of_int (drop_bit 16 x) :: 8 word))"
    and "load v (write4 v offs x m) (offs + 2) = Some (uint (word_of_int (drop_bit 8 x) :: 8 word))"
    and "load v (write4 v offs x m) (offs + 3) = Some (uint (word_of_int x :: 8 word))"
  using assms by (simp_all add: write4_def load_store)

lemma write4_absorb:
  assumes "0 \<le> offs" and "offs + 3 < snd v"
    and "load v m' offs = load v (write4 v offs x m) offs"
    and "load v m' (offs + 1) = load v (write4 v offs x m) (offs + 1)"
    and "load v m' (offs + 2) = load v (write4 v offs x m) (offs + 2)"
    and "load v m' (offs + 3) = load v (write4 v offs x m) (offs + 3)"
  shows "write4 v offs x m' = m'"
proof -
  note A = load_write4_at [OF assms(1,2), of x m]
  have 0: "store v offs (word_of_int (drop_bit 24 x)) m' = m'"
    using assms(3) A(1) by (intro store_absorb) simp
  have 1: "store v (offs + 1) (word_of_int (drop_bit 16 x)) m' = m'"
    using assms(4) A(2) by (intro store_absorb) simp
  have 2: "store v (offs + 2) (word_of_int (drop_bit 8 x)) m' = m'"
    using assms(5) A(3) by (intro store_absorb) simp
  have 3: "store v (offs + 3) (word_of_int x) m' = m'"
    using assms(6) A(4) by (intro store_absorb) simp
  show ?thesis by (simp add: write4_def 0 1 2 3)
qed

lemma crc32_absorb:
  assumes "0 \<le> offs + sz - 4" and "offs + sz - 1 < snd v"
    and "\<And>a. offs + 4 \<le> a \<Longrightarrow> a \<le> offs + sz - 5 \<Longrightarrow> load v m' a = load v m a"
    and "\<And>a. offs + sz - 4 \<le> a \<Longrightarrow> a \<le> offs + sz - 1 \<Longrightarrow> load v m' a = load v (crc32 e v offs sz m) a"
  shows "crc32 e v offs sz m' = m'"
proof -
  define x where "x = crc e (map (load v m) [offs + 4..offs + sz - 5])"
  have meq: "map (load v m') [offs + 4..offs + sz - 5] = map (load v m) [offs + 4..offs + sz - 5]"
    using assms(3) by (intro map_cong) simp_all
  have c: "crc32 e v offs sz m' = write4 v (offs + sz - 4) x m'"
    unfolding crc32_def x_def meq by (rule refl)
  have d: "crc32 e v offs sz m = write4 v (offs + sz - 4) x m"
    by (simp add: crc32_def x_def)
  have "write4 v (offs + sz - 4) x m' = m'"
  proof (rule write4_absorb [where m = m])
    show "0 \<le> offs + sz - 4" by (rule assms(1))
    show "offs + sz - 4 + 3 < snd v" using assms(2) by simp
    show "load v m' (offs + sz - 4) = load v (write4 v (offs + sz - 4) x m) (offs + sz - 4)"
      using assms(4) [of "offs + sz - 4"] by (simp add: d)
    show "load v m' (offs + sz - 4 + 1) = load v (write4 v (offs + sz - 4) x m) (offs + sz - 4 + 1)"
      using assms(4) [of "offs + sz - 4 + 1"] by (simp add: d)
    show "load v m' (offs + sz - 4 + 2) = load v (write4 v (offs + sz - 4) x m) (offs + sz - 4 + 2)"
      using assms(4) [of "offs + sz - 4 + 2"] by (simp add: d)
    show "load v m' (offs + sz - 4 + 3) = load v (write4 v (offs + sz - 4) x m) (offs + sz - 4 + 3)"
      using assms(4) [of "offs + sz - 4 + 3"] by (simp add: d)
  qed
  then show ?thesis by (simp add: c)
qed

section \<open>Well-formed images\<close>

lemma wf_fields:
  assumes "wf s"
  shows "ihdr_offs s = 0" "ihdr_size s = 25" "plte_offs s = 25" "plte_size s = 12 + 3 * depth s"
    "trns_offs s = 37 + 3 * depth s" "trns_size s = 12 + depth s" "idat_offs s = 49 + 4 * depth s"
    "idat_size s = 18 + pix_size s + 5 * ((65534 + pix_size s) div 65535)"
    "iend_offs s = 67 + 4 * depth s + pix_size s + 5 * ((65534 + pix_size s) div 65535)"
    "iend_size s = 12"
    "buffer_size s = 79 + 4 * depth s + pix_size s + 5 * ((65534 + pix_size s) div 65535)"
    "buffer s = (8, buffer_size s)" "raw s = (0, 8 + buffer_size s)"
    "pix_size s = height s * (width s + 1)"
proof -
  let ?i = "init (width s) (height s) (Some (depth s)) (bg s)"
  have L: "layout_of s = ?i" and d: "depth s \<noteq> 0" using assms by (auto simp: wf_def)
  have "ihdr_offs (layout_of s) = 0" unfolding L by (simp add: init_def Let_def)
  then show "ihdr_offs s = 0" by (simp add: layout_of_def)
  have "ihdr_size (layout_of s) = 25" unfolding L by (simp add: init_def Let_def)
  then show "ihdr_size s = 25" by (simp add: layout_of_def)
  have "plte_offs (layout_of s) = 25" unfolding L by (simp add: init_def Let_def)
  then show "plte_offs s = 25" by (simp add: layout_of_def)
  have "plte_size (layout_of s) = 12 + 3 * depth s" unfolding L using d by (simp add: init_def Let_def)
  then show "plte_size s = 12 + 3 * depth s" by (simp add: layout_of_def)
  have "trns_offs (layout_of s) = 37 + 3 * depth s" unfolding L using d by (simp add: init_def Let_def)
  then show "trns_offs s = 37 + 3 * depth s" by (simp add: layout_of_def)
  have "trns_size (layout_of s) = 12 + depth s" unfolding L using d by (simp add: init_def Let_def)
  then show "trns_size s = 12 + depth s" by (simp add: layout_of_def)
  have "idat_offs (layout_of s) = 49 + 4 * depth s" unfolding L using d by (simp add: init_def Let_def)
  then show "idat_offs s = 49 + 4 * depth s" by (simp add: layout_of_def)
  have "pix_size (layout_of s) = height s * (width s + 1)" unfolding L by (simp add: init_def Let_def)
  then show p: "pix_size s = height s * (width s + 1)" by (simp add: layout_of_def)
  have "idat_size (layout_of s) = 18 + height s * (width s + 1) + 5 * ((65534 + height s * (width s + 1)) div 65535)"
    unfolding L by (simp add: init_def Let_def)
  then show "idat_size s = 18 + pix_size s + 5 * ((65534 + pix_size s) div 65535)"
    by (simp add: layout_of_def p)
  have "iend_offs (layout_of s) = 67 + 4 * depth s + height s * (width s + 1) + 5 * ((65534 + height s * (width s + 1)) div 65535)"
    unfolding L using d by (simp add: init_def Let_def)
  then show "iend_offs s = 67 + 4 * depth s + pix_size s + 5 * ((65534 + pix_size s) div 65535)"
    by (simp add: layout_of_def p)
  have "iend_size (layout_of s) = 12" unfolding L by (simp add: init_def Let_def)
  then show "iend_size s = 12" by (simp add: layout_of_def)
  have "buffer_size (layout_of s) = 79 + 4 * depth s + height s * (width s + 1) + 5 * ((65534 + height s * (width s + 1)) div 65535)"
    unfolding L using d by (simp add: init_def Let_def)
  then show b: "buffer_size s = 79 + 4 * depth s + pix_size s + 5 * ((65534 + pix_size s) div 65535)"
    by (simp add: layout_of_def p)
  have "buffer (layout_of s) = (8, buffer_size (layout_of s))"
    unfolding L by (simp add: init_def Let_def PNG_HEAD_def)
  then show "buffer s = (8, buffer_size s)" by (simp add: layout_of_def)
  have "raw (layout_of s) = (0, 8 + buffer_size (layout_of s))"
    unfolding L by (simp add: init_def Let_def PNG_HEAD_def)
  then show "raw s = (0, 8 + buffer_size s)" by (simp add: layout_of_def)
qed

lemma wf_pix:
  assumes "wf s"
  shows "2 \<le> pix_size s" "1 \<le> (65534 + pix_size s) div 65535"
proof -
  have "1 \<le> width s" "1 \<le> height s" using assms by (auto simp: wf_def)
  then have "1 * (1 + 1) \<le> height s * (width s + 1)"
    by (intro mult_mono) simp_all
  then show p: "2 \<le> pix_size s" using wf_fields(14) [OF assms] by simp
  then have "65535 \<le> 65534 + pix_size s" by simp
  then have "65535 div 65535 \<le> (65534 + pix_size s) div 65535"
    by (rule zdiv_mono1) simp
  then show "1 \<le> (65534 + pix_size s) div 65535" by simp
qed

lemma wf_layout_eq: "layout_of s' = layout_of s \<Longrightarrow> wf s' = wf s"
proof -
  assume L: "layout_of s' = layout_of s"
  have f: "\<And>t. width t = width (layout_of t) \<and> height t = height (layout_of t) \<and>
    depth t = depth (layout_of t) \<and> bg t = bg (layout_of t)"
    by (simp add: layout_of_def)
  have "width s' = width s" "height s' = height s" "depth s' = depth s" "bg s' = bg s"
    using f [of s] f [of s'] L by simp_all
  then show ?thesis using L by (simp add: wf_def)
qed

lemma wf_register: "wf (snd (register r g b a s)) = wf s"
  by (rule wf_layout_eq) (rule layout_of_register)

lemma wf_color: "wf (snd (color e red green blue alpha s)) = wf s"
  by (rule wf_layout_eq) (rule layout_of_color)

lemma wf_setPixel: "wf (snd (setPixel e x y rgba s)) = wf s"
  by (rule wf_layout_eq) (rule layout_of_setPixel)

lemma wf_deflate: "wf (snd (deflate e s)) = wf s"
  by (rule wf_layout_eq) (rule layout_of_deflate)

lemma wf_heap [simp]: "wf (s\<lparr>heap := m\<rparr>) = wf s"
  by (rule wf_layout_eq) simp

lemma wf_constructor:
  assumes "constructor e w h d b = Some (Inr s)" and "1 \<le> w" and "1 \<le> h" and "1 \<le> depth s"
  shows "wf s"
proof -
  have L: "layout_of s = init w h d b" using assms(1) by (rule layout_of_constructor)
  have "width s = w" "height s = h" "bg s = b" "depth s = depth (init w h d b)"
    by (simp_all add: layout_fields [of s] L init_fields)
  then show ?thesis using assms(2-4) L by (simp add: wf_def init_depth)
qed

lemma wf_run: "wf (run e cs s) = wf s"
  by (rule wf_layout_eq) (rule layout_of_run)

section \<open>Palette index 0 under the methods\<close>

lemma layout_fields_register:
  "plte_offs (snd (register r g b a s)) = plte_offs s"
  "trns_offs (snd (register r g b a s)) = trns_offs s"
  "buffer (snd (register r g b a s)) = buffer s"
  "depth (snd (register r g b a s)) = depth s"
  by (simp_all add: register_def Let_def)

lemma started_register:
  assumes "started s"
  shows "started (snd (register r g b a s))"
proof -
  have "1 \<le> pindex (snd (register r g b a s)) \<and> pindex (snd (register r g b a s)) \<le> depth s"
    using assms by (auto simp: started_def register_def Let_def)
  then show ?thesis using assms by (simp add: started_def wf_register layout_fields_register)
qed

lemma register_cases:
  "snd (register r g b a s) = s \<or>
   snd (register r g b a s) = s\<lparr>console := console s @ [''node-pnglib: depth is not enough, set up it for more'']\<rparr> \<or>
   (palette s (color_key r g b a) = None \<and> pindex s \<noteq> depth s \<and>
    snd (register r g b a s) =
      s\<lparr>heap := store (buffer s) (trns_offs s + 8 + pindex s) (ToUint8 a)
                  (store (buffer s) (plte_offs s + 8 + 3 * pindex s + 2) (ToUint8 b)
                    (store (buffer s) (plte_offs s + 8 + 3 * pindex s + 1) (ToUint8 g)
                      (store (buffer s) (plte_offs s + 8 + 3 * pindex s + 0) (ToUint8 r) (heap s)))),
         palette := (palette s)(color_key r g b a \<mapsto> pindex s),
         pindex := pindex s + 1\<rparr>)"
  by (simp add: register_def Let_def)

lemma slot0_console [simp]: "slot0 (s\<lparr>console := c\<rparr>) r g b a = slot0 s r g b a"
  by (simp add: slot0_def)

lemma slot0_fresh:
  assumes "started s" and "slot0 s r0 g0 b0 a0"
    and "palette s k = None" and "pindex s \<noteq> depth s"
  shows "slot0 (s\<lparr>heap := store (buffer s) (trns_offs s + 8 + pindex s) va
                  (store (buffer s) (plte_offs s + 8 + 3 * pindex s + 2) vb
                    (store (buffer s) (plte_offs s + 8 + 3 * pindex s + 1) vg
                      (store (buffer s) (plte_offs s + 8 + 3 * pindex s + 0) vr (heap s)))),
         palette := (palette s)(k \<mapsto> pindex s),
         pindex := pindex s + 1\<rparr>) r0 g0 b0 a0"
proof -
  have wf: "wf s" and p: "1 \<le> pindex s" "pindex s < depth s"
    using assms(1,4) by (auto simp: started_def)
  note F = wf_fields(3,5) [OF wf]
  have k: "k \<noteq> color_key r0 g0 b0 a0"
    using assms(2,3) by (auto simp: slot0_def)
  have P: "palette s (color_key r0 g0 b0 a0) = Some 0"
    and U: "\<And>k. k \<noteq> color_key r0 g0 b0 a0 \<Longrightarrow> palette s k \<noteq> Some 0"
    and L1: "load (buffer s) (heap s) (plte_offs s + 8) = Some (uint (ToUint8 r0))"
    and L2: "load (buffer s) (heap s) (plte_offs s + 8 + 1) = Some (uint (ToUint8 g0))"
    and L3: "load (buffer s) (heap s) (plte_offs s + 8 + 2) = Some (uint (ToUint8 b0))"
    and L4: "load (buffer s) (heap s) (trns_offs s + 8) = Some (uint (ToUint8 a0))"
    using assms(2) by (simp_all add: slot0_def)
  let ?m = "store (buffer s) (trns_offs s + 8 + pindex s) va
                  (store (buffer s) (plte_offs s + 8 + 3 * pindex s + 2) vb
                    (store (buffer s) (plte_offs s + 8 + 3 * pindex s + 1) vg
                      (store (buffer s) (plte_offs s + 8 + 3 * pindex s + 0) vr (heap s))))"
  have M1: "load (buffer s) ?m (plte_offs s + 8) = load (buffer s) (heap s) (plte_offs s + 8)"
    using p by (simp add: load_store F)
  have M2: "load (buffer s) ?m (plte_offs s + 8 + 1) = load (buffer s) (heap s) (plte_offs s + 8 + 1)"
    using p by (simp add: load_store F)
  have M3: "load (buffer s) ?m (plte_offs s + 8 + 2) = load (buffer s) (heap s) (plte_offs s + 8 + 2)"
    using p by (simp add: load_store F)
  have M4: "load (buffer s) ?m (trns_offs s + 8) = load (buffer s) (heap s) (trns_offs s + 8)"
    using p by (simp add: load_store F)
  have Q1: "((palette s)(k \<mapsto> pindex s)) (color_key r0 g0 b0 a0) = Some 0"
    using k P by simp
  have Q2: "\<forall>k'. k' \<noteq> color_key r0 g0 b0 a0 \<longrightarrow> ((palette s)(k \<mapsto> pindex s)) k' \<noteq> Some 0"
    using U p by (auto split: if_splits)
  show ?thesis
    unfolding slot0_def using Q1 Q2 M1 M2 M3 M4 L1 L2 L3 L4 by simp
qed

lemma slot0_register:
  assumes "started s" and "slot0 s r0 g0 b0 a0"
  shows "slot0 (snd (register r g b a s)) r0 g0 b0 a0"
  using register_cases [of r g b a s] assms slot0_fresh [OF assms]
  by (elim disjE) auto

lemma index_lower:
  assumes "wf s" and "0 \<le> x" and "0 \<le> y"
  shows "idat_offs s + 16 \<le> index s x y"
proof -
  have "0 \<le> width s + 1" using assms(1) by (simp add: wf_def)
  then have "0 \<le> y * (width s + 1)" using assms(3) by simp
  then have i: "1 \<le> y * (width s + 1) + x + 1" using assms(2) by simp
  then have "0 \<le> (y * (width s + 1) + x + 1) div 65535"
    by (simp add: pos_imp_zdiv_nonneg_iff)
  then show ?thesis using i by (simp add: index_def Let_def)
qed

lemma slot0_heap:
  assumes "load (buffer s) m (plte_offs s + 8) = load (buffer s) (heap s) (plte_offs s + 8)"
    and "load (buffer s) m (plte_offs s + 8 + 1) = load (buffer s) (heap s) (plte_offs s + 8 + 1)"
    and "load (buffer s) m (plte_offs s + 8 + 2) = load (buffer s) (heap s) (plte_offs s + 8 + 2)"
    and "load (buffer s) m (trns_offs s + 8) = load (buffer s) (heap s) (trns_offs s + 8)"
  shows "slot0 (s\<lparr>heap := m\<rparr>) r g b a = slot0 s r g b a"
  using assms by (simp add: slot0_def)

lemma started_heap [simp]: "started (s\<lparr>heap := m\<rparr>) = started s"
proof -
  have "layout_of (s\<lparr>heap := m\<rparr>) = layout_of s" by simp
  then have "wf (s\<lparr>heap := m\<rparr>) = wf s" by (rule wf_layout_eq)
  then show ?thesis by (simp add: started_def)
qed

lemma started_color: "started s \<Longrightarrow> started (snd (color e red green blue alpha s))"
  by (auto simp: color_def started_register split: option.splits)

lemma slot0_color:
  "started s \<Longrightarrow> slot0 s r g b a \<Longrightarrow> slot0 (snd (color e red green blue alpha s)) r g b a"
  by (auto simp: color_def slot0_register split: option.splits)

lemma layout_fields_color:
  "plte_offs (snd (color e red green blue alpha s)) = plte_offs s"
  "trns_offs (snd (color e red green blue alpha s)) = trns_offs s"
  "buffer (snd (color e red green blue alpha s)) = buffer s"
  by (auto simp: color_def layout_fields_register split: option.splits)

lemma started_setPixel: "started s \<Longrightarrow> started (snd (setPixel e x y rgba s))"
  by (auto simp: setPixel_def Let_def started_color split: sum.splits)

lemma slot0_setPixel:
  assumes "started s" and "slot0 s r g b a"
  shows "slot0 (snd (setPixel e x y rgba s)) r g b a"
proof (cases "x < 0 \<or> y < 0 \<or> x \<ge> width s \<or> y \<ge> height s")
  case True
  then show ?thesis using assms(2) by (simp add: setPixel_def)
next
  case False
  let ?s' = "snd (color e rgba None None None s)"
  have S: "slot0 ?s' r g b a" using assms by (rule slot0_color)
  have wf: "wf s" using assms(1) by (simp add: started_def)
  note F = wf_fields(3,5,7) [OF wf]
  have d: "1 \<le> depth s" using wf by (simp add: wf_def)
  have j: "idat_offs s + 16 \<le> index s x y" using wf False by (intro index_lower) simp_all
  have "slot0 (?s'\<lparr>heap := store (buffer ?s') (index s x y) v (heap ?s')\<rparr>) r g b a = slot0 ?s' r g b a" for v
    using j d by (intro slot0_heap) (simp_all add: load_store layout_fields_color F)
  then show ?thesis using S False by (simp add: setPixel_def Let_def split: sum.splits)
qed

lemma slot0_deflate:
  assumes "started s" and "slot0 s r g b a"
  shows "slot0 (snd (deflate e s)) r g b a"
proof -
  have wf: "wf s" using assms(1) by (simp add: started_def)
  note F = wf_fields(1-10) [OF wf]
  note P = wf_pix [OF wf]
  have d: "1 \<le> depth s" using wf by (simp add: wf_def)
  have "slot0 (snd (deflate e s)) r g b a = slot0 s r g b a"
    unfolding deflate_def Let_def snd_conv
    using d P by (intro slot0_heap) (simp_all add: load_crc32_other load_write4_other F)
  then show ?thesis using assms(2) by simp
qed

lemma started_perform: "started s \<Longrightarrow> started (perform e s c)"
  by (cases c) (simp_all add: started_color started_setPixel getBuffer_def getBase64_def deflate_def Let_def)

lemma slot0_perform: "started s \<Longrightarrow> slot0 s r g b a \<Longrightarrow> slot0 (perform e s c) r g b a"
  by (cases c) (simp_all add: slot0_color slot0_setPixel slot0_deflate getBuffer_def getBase64_def Let_def)

lemma slot0_run: "started s \<Longrightarrow> slot0 s r g b a \<Longrightarrow> started (run e cs s) \<and> slot0 (run e cs s) r g b a"
  unfolding run_def
  by (induction cs arbitrary: s) (simp_all add: started_perform slot0_perform)

lemma constructor_slot0:
  assumes "constructor e w h d b = Some (Inr s)" and "1 \<le> w" and "1 \<le> h" and "1 \<le> depth s"
  shows "started s \<and> (\<exists>r g bl a. background e b = Some (r, g, bl, a) \<and> slot0 s r g bl a)"
proof -
  have wf: "wf s" using assms by (rule wf_constructor)
  note F = wf_fields [OF wf]
  note P = wf_pix [OF wf]
  let ?i = "init w h d b"
  obtain hs r g bl a where bgc: "background e b = Some (r, g, bl, a)"
    and s: "s = snd (register r g bl a (?i\<lparr>heap := write_headers (buffer ?i) hs (skeleton e ?i)\<rparr>))"
    using constructor_result [OF assms(1)] by blast
  define t where "t = ?i\<lparr>heap := write_headers (buffer ?i) hs (skeleton e ?i)\<rparr>"
  have t: "palette t = Map.empty" "pindex t = 0" "depth t \<noteq> 0"
    by (simp_all add: t_def init_def Let_def split: option.splits)
  have s': "s = t\<lparr>heap := store (buffer t) (trns_offs t + 8 + pindex t) (ToUint8 a)
                  (store (buffer t) (plte_offs t + 8 + 3 * pindex t + 2) (ToUint8 bl)
                    (store (buffer t) (plte_offs t + 8 + 3 * pindex t + 1) (ToUint8 g)
                      (store (buffer t) (plte_offs t + 8 + 3 * pindex t + 0) (ToUint8 r) (heap t)))),
         palette := (palette t)(color_key r g bl a \<mapsto> pindex t),
         pindex := pindex t + 1\<rparr>"
    using register_cases [of r g bl a t] t unfolding s t_def [symmetric]
    by (simp add: register_def Let_def)
  have lt: "buffer t = buffer s" "plte_offs t = plte_offs s" "trns_offs t = trns_offs s"
    by (simp_all add: s')
  have pi: "pindex s = 1" "palette s = [color_key r g bl a \<mapsto> 0]"
    by (simp_all add: s' t)
  have st: "started s" using wf assms(4) by (simp add: started_def pi)
  have hp: "heap s = store (buffer s) (trns_offs s + 8) (ToUint8 a)
                  (store (buffer s) (plte_offs s + 8 + 2) (ToUint8 bl)
                    (store (buffer s) (plte_offs s + 8 + 1) (ToUint8 g)
                      (store (buffer s) (plte_offs s + 8) (ToUint8 r) (heap t))))"
    unfolding lt [symmetric] by (subst s') (simp add: t)
  have "slot0 s r g bl a"
    unfolding slot0_def hp using P assms(4)
    by (simp add: pi load_store F)
  then show ?thesis using st bgc by blast
qed

section \<open>The checksums of \<open>deflate\<close>\<close>

lemma adler_step_nan:
  "load (buffer s) (heap s) (adler_addr s x y) = None \<Longrightarrow>
   \<exists>n. adler_step s y acc x = (None, None, n)"
  by (cases acc) (auto simp: adler_step_def Let_def num_add_def num_mod_def split: option.splits)

lemma logical_position_bounds:
  fixes w h x y :: int
  assumes "1 \<le> w" and "0 \<le> y" and "y \<le> h - 1" and "-1 \<le> x" and "x \<le> w - 1"
  shows "0 \<le> y * (w + 1) + x + 1" and "y * (w + 1) + x + 1 < h * (w + 1)"
proof -
  have "0 \<le> y * (w + 1)" using assms by (intro mult_nonneg_nonneg) simp_all
  then show "0 \<le> y * (w + 1) + x + 1" using assms by linarith
  have "y * (w + 1) \<le> (h - 1) * (w + 1)"
    using assms by (intro mult_right_mono) simp_all
  then have "y * (w + 1) + x + 1 \<le> (h - 1) * (w + 1) + w" using assms by linarith
  also have "\<dots> < h * (w + 1)" by (simp add: algebra_simps)
  finally show "y * (w + 1) + x + 1 < h * (w + 1)" .
qed

lemma adler_walk_nan:
  assumes "wf s" and "65535 < pix_size s"
  shows "\<exists>n. adler_walk s = (None, None, n)"
proof -
  note F = wf_fields [OF assms(1)]
  have w: "1 \<le> width s" and h: "1 \<le> height s" and c: "1 \<le> depth s"
    using assms(1) by (auto simp: wf_def)
  define p where "p = pix_size s"
  define k where "k = (p - 1) div 65535"
  have i: "(height s - 1) * (width s + 1) + (width s - 1) + 1 = p - 1"
    by (simp add: p_def F(14) algebra_simps)
  have "65535 div 65535 \<le> (p - 1) div 65535"
    using assms(2) by (intro zdiv_mono1) (simp_all add: p_def)
  then have k1: "1 \<le> k" by (simp add: k_def)
  have "(65534 + p) div 65535 = (p - 1 + 65535) div 65535" by simp
  also have "\<dots> = k + 1" by (simp add: k_def)
  finally have nb: "(65534 + p) div 65535 = k + 1" .
  have "(59 + 4 * depth s) * 2 \<le> (59 + 4 * depth s) * (k + 1)"
    using c k1 by (intro mult_left_mono) simp_all
  then have "80 + 4 * depth s + 5 * (k + 1) \<le> (64 + 4 * depth s) * (k + 1)"
    using c by (simp add: algebra_simps)
  then have "buffer_size s \<le> adler_addr s (width s - 1) (height s - 1)"
    unfolding adler_addr_def Let_def i F(11) F(7) p_def [symmetric] nb k_def [symmetric]
    by (simp add: algebra_simps)
  then have L: "load (buffer s) (heap s) (adler_addr s (width s - 1) (height s - 1)) = None"
    by (simp add: load_def F(12))
  have ys: "[0..height s - 1] = [0..height s - 1 - 1] @ [height s - 1]"
    using h by (intro upto_rec2) simp
  have xs: "[-1..width s - 1] = [-1..width s - 1 - 1] @ [width s - 1]"
    using w by (intro upto_rec2) simp
  have "\<exists>n. adler_row s acc (height s - 1) = (None, None, n)" for acc
    unfolding adler_row_def by (subst xs) (simp add: adler_step_nan [OF L])
  then show ?thesis
    unfolding adler_walk_def by (subst ys) simp
qed

lemma adler32_nan:
  assumes "wf s" and "65535 < pix_size s"
  shows "adler32 s = 0"
proof -
  obtain n where "adler_walk s = (None, None, n)"
    using adler_walk_nan [OF assms] by blast
  then show ?thesis
    by (simp add: adler32_def num_mod_def num32_def shl_def bor_def ToInt32_def)
qed

lemma adler_addr_heap [simp]: "adler_addr (s\<lparr>heap := m\<rparr>) x y = adler_addr s x y"
  by (simp add: adler_addr_def)

lemma adler_walk_heap:
  assumes "wf s" and "pix_size s \<le> 65535"
    and "\<And>a. idat_offs s + 15 \<le> a \<Longrightarrow> a < idat_offs s + 15 + pix_size s \<Longrightarrow>
           load (buffer s) m a = load (buffer s) (heap s) a"
  shows "adler_walk (s\<lparr>heap := m\<rparr>) = adler_walk s"
proof -
  note F = wf_fields [OF assms(1)]
  have w: "1 \<le> width s" using assms(1) by (auto simp: wf_def)
  have step: "adler_step (s\<lparr>heap := m\<rparr>) y acc x = adler_step s y acc x"
    if "0 \<le> y \<and> y < height s" and "-1 \<le> x \<and> x < width s" for x y acc
  proof -
    define i where "i = y * (width s + 1) + x + 1"
    have "0 \<le> i" "i < pix_size s"
      using logical_position_bounds [of "width s" y "height s" x] w that
      by (simp_all add: i_def F(14))
    then have "i div 65535 = 0" using assms(2) by simp
    then have a: "adler_addr s x y = idat_offs s + 15 + i"
      by (simp add: adler_addr_def Let_def i_def [symmetric])
    have "load (buffer s) m (adler_addr s x y) = load (buffer s) (heap s) (adler_addr s x y)"
      unfolding a using \<open>0 \<le> i\<close> \<open>i < pix_size s\<close> by (intro assms(3)) simp_all
    then show ?thesis by (simp add: adler_step_def)
  qed
  have row: "adler_row (s\<lparr>heap := m\<rparr>) acc y = adler_row s acc y"
    if "0 \<le> y \<and> y < height s" for y acc
    unfolding adler_row_def
    by (rule foldl_cong) (simp_all add: step that)
  show ?thesis
    unfolding adler_walk_def
    by (rule foldl_cong) (simp_all add: row)
qed

lemma adler32_heap:
  assumes "wf s"
    and "\<And>a. idat_offs s + 15 \<le> a \<Longrightarrow> a < idat_offs s + 15 + pix_size s \<Longrightarrow>
           load (buffer s) m a = load (buffer s) (heap s) a"
  shows "adler32 (s\<lparr>heap := m\<rparr>) = adler32 s"
proof (cases "pix_size s \<le> 65535")
  case True
  then show ?thesis using adler_walk_heap [OF assms(1) True assms(2)] by (simp add: adler32_def)
next
  case False
  then have "adler32 (s\<lparr>heap := m\<rparr>) = 0" using assms(1) by (intro adler32_nan) simp_all
  moreover have "adler32 s = 0" using False assms(1) by (intro adler32_nan) simp_all
  ultimately show ?thesis by simp
qed

lemma deflate_idem:
  assumes wf: "wf s"
  shows "deflate e (snd (deflate e s)) = deflate e s"
proof -
  note F = wf_fields [OF wf]
  note P = wf_pix [OF wf]
  have c: "1 \<le> depth s" using wf by (simp add: wf_def)
  define v where "v = buffer s"
  define A where "A = idat_offs s + idat_size s - 8"
  define m1 where "m1 = write4 v A (adler32 s) (heap s)"
  define m2 where "m2 = crc32 e v (ihdr_offs s) (ihdr_size s) m1"
  define m3 where "m3 = crc32 e v (plte_offs s) (plte_size s) m2"
  define m4 where "m4 = crc32 e v (trns_offs s) (trns_size s) m3"
  define m5 where "m5 = crc32 e v (idat_offs s) (idat_size s) m4"
  define m6 where "m6 = crc32 e v (iend_offs s) (iend_size s) m5"
  define s' where "s' = s\<lparr>heap := m6\<rparr>"
  have D: "deflate e s = (contents (raw s) m6, s')"
    by (simp add: deflate_def Let_def s'_def m6_def m5_def m4_def m3_def m2_def m1_def v_def A_def)
  have sv: "snd v = buffer_size s" by (simp add: v_def F(12))
  \<comment> \<open>what each later write leaves alone\<close>
  have f6: "load v m6 a = load v m5 a" if "a < iend_offs s + 8 \<or> iend_offs s + 11 < a" for a
    unfolding m6_def using that by (intro load_crc32_other) (auto simp: F(10))
  have f5: "load v m5 a = load v m4 a" if "a < idat_offs s + idat_size s - 4 \<or> idat_offs s + idat_size s - 1 < a" for a
    unfolding m5_def using that by (intro load_crc32_other) auto
  have f4: "load v m4 a = load v m3 a" if "a < trns_offs s + trns_size s - 4 \<or> trns_offs s + trns_size s - 1 < a" for a
    unfolding m4_def using that by (intro load_crc32_other) auto
  have f3: "load v m3 a = load v m2 a" if "a < plte_offs s + plte_size s - 4 \<or> plte_offs s + plte_size s - 1 < a" for a
    unfolding m3_def using that by (intro load_crc32_other) auto
  have f2: "load v m2 a = load v m1 a" if "a < 21 \<or> 24 < a" for a
    unfolding m2_def using that by (intro load_crc32_other) (auto simp: F(1,2))
  have f1: "load v m1 a = load v (heap s) a" if "a < A \<or> A + 3 < a" for a
    unfolding m1_def using that by (intro load_write4_other) auto
  \<comment> \<open>the pixel region is not written\<close>
  have pix: "load (buffer s) m6 a = load (buffer s) (heap s) a"
    if "idat_offs s + 15 \<le> a" and "a < idat_offs s + 15 + pix_size s" for a
  proof -
    have "load v m6 a = load v m5 a" using that P c by (intro f6) (simp add: F)
    also have "\<dots> = load v m4 a" using that P c by (intro f5) (simp add: F)
    also have "\<dots> = load v m3 a" using that P c by (intro f4) (simp add: F)
    also have "\<dots> = load v m2 a" using that P c by (intro f3) (simp add: F)
    also have "\<dots> = load v m1 a" using that P c by (intro f2) (simp add: F)
    also have "\<dots> = load v (heap s) a" using that P c by (intro f1) (simp add: F A_def)
    finally show ?thesis by (simp add: v_def)
  qed
  have a32: "adler32 s' = adler32 s"
    unfolding s'_def using wf pix by (rule adler32_heap)
  \<comment> \<open>the second run writes what is there already\<close>
  have w1: "write4 v A (adler32 s) m6 = m6"
  proof (rule write4_absorb [where m = "heap s"])
    show "0 \<le> A" using P c by (simp add: A_def F)
    show "A + 3 < snd v" using P c by (simp add: A_def F sv)
    have "load v m6 a = load v m1 a" if "A \<le> a" and "a \<le> A + 3" for a
    proof -
      have "load v m6 a = load v m5 a" using that P c by (intro f6) (simp add: F A_def)
      also have "\<dots> = load v m4 a" using that P c by (intro f5) (simp add: F A_def)
      also have "\<dots> = load v m3 a" using that P c by (intro f4) (simp add: F A_def)
      also have "\<dots> = load v m2 a" using that P c by (intro f3) (simp add: F A_def)
      also have "\<dots> = load v m1 a" using that P c by (intro f2) (simp add: F A_def)
      finally show ?thesis .
    qed
    then show "load v m6 A = load v (write4 v A (adler32 s) (heap s)) A"
      and "load v m6 (A + 1) = load v (write4 v A (adler32 s) (heap s)) (A + 1)"
      and "load v m6 (A + 2) = load v (write4 v A (adler32 s) (heap s)) (A + 2)"
      and "load v m6 (A + 3) = load v (write4 v A (adler32 s) (heap s)) (A + 3)"
      by (simp_all add: m1_def)
  qed
  have w2: "crc32 e v (ihdr_offs s) (ihdr_size s) m6 = m6"
  proof (rule crc32_absorb [where m = m1])
    show "0 \<le> ihdr_offs s + ihdr_size s - 4" by (simp add: F)
    show "ihdr_offs s + ihdr_size s - 1 < snd v" using P c by (simp add: F sv)
    fix a
    { assume "ihdr_offs s + 4 \<le> a" and "a \<le> ihdr_offs s + ihdr_size s - 5"
      then have r: "4 \<le> a" "a \<le> 20" by (simp_all add: F)
      have "load v m6 a = load v m5 a" using r P c by (intro f6) (simp add: F)
      also have "\<dots> = load v m4 a" using r P c by (intro f5) (simp add: F)
      also have "\<dots> = load v m3 a" using r P c by (intro f4) (simp add: F)
      also have "\<dots> = load v m2 a" using r P c by (intro f3) (simp add: F)
      also have "\<dots> = load v m1 a" using r P c by (intro f2) (simp add: F)
      finally show "load v m6 a = load v m1 a" . }
    { assume "ihdr_offs s + ihdr_size s - 4 \<le> a" and "a \<le> ihdr_offs s + ihdr_size s - 1"
      then have r: "21 \<le> a" "a \<le> 24" by (simp_all add: F)
      have "load v m6 a = load v m5 a" using r P c by (intro f6) (simp add: F)
      also have "\<dots> = load v m4 a" using r P c by (intro f5) (simp add: F)
      also have "\<dots> = load v m3 a" using r P c by (intro f4) (simp add: F)
      also have "\<dots> = load v m2 a" using r P c by (intro f3) (simp add: F)
      finally show "load v m6 a = load v (crc32 e v (ihdr_offs s) (ihdr_size s) m1) a"
        by (simp add: m2_def) }
  qed
  have w3: "crc32 e v (plte_offs s) (plte_size s) m6 = m6"
  proof (rule crc32_absorb [where m = m2])
    show "0 \<le> plte_offs s + plte_size s - 4" using c by (simp add: F)
    show "plte_offs s + plte_size s - 1 < snd v" using P c by (simp add: F sv)
    fix a
    { assume r: "plte_offs s + 4 \<le> a" "a \<le> plte_offs s + plte_size s - 5"
      have "load v m6 a = load v m5 a" using r P c by (intro f6) (simp add: F)
      also have "\<dots> = load v m4 a" using r P c by (intro f5) (simp add: F)
      also have "\<dots> = load v m3 a" using r P c by (intro f4) (simp add: F)
      also have "\<dots> = load v m2 a" using r P c by (intro f3) (simp add: F)
      finally show "load v m6 a = load v m2 a" . }
    { assume r: "plte_offs s + plte_size s - 4 \<le> a" "a \<le> plte_offs s + plte_size s - 1"
      have "load v m6 a = load v m5 a" using r P c by (intro f6) (simp add: F)
      also have "\<dots> = load v m4 a" using r P c by (intro f5) (simp add: F)
      also have "\<dots> = load v m3 a" using r P c by (intro f4) (simp add: F)
      finally show "load v m6 a = load v (crc32 e v (plte_offs s) (plte_size s) m2) a"
        by (simp add: m3_def) }
  qed
  have w4: "crc32 e v (trns_offs s) (trns_size s) m6 = m6"
  proof (rule crc32_absorb [where m = m3])
    show "0 \<le> trns_offs s + trns_size s - 4" using c by (simp add: F)
    show "trns_offs s + trns_size s - 1 < snd v" using P c by (simp add: F sv)
    fix a
    { assume r: "trns_offs s + 4 \<le> a" "a \<le> trns_offs s + trns_size s - 5"
      have "load v m6 a = load v m5 a" using r P c by (intro f6) (simp add: F)
      also have "\<dots> = load v m4 a" using r P c by (intro f5) (simp add: F)
      also have "\<dots> = load v m3 a" using r P c by (intro f4) (simp add: F)
      finally show "load v m6 a = load v m3 a" . }
    { assume r: "trns_offs s + trns_size s - 4 \<le> a" "a \<le> trns_offs s + trns_size s - 1"
      have "load v m6 a = load v m5 a" using r P c by (intro f6) (simp add: F)
      also have "\<dots> = load v m4 a" using r P c by (intro f5) (simp add: F)
      finally show "load v m6 a = load v (crc32 e v (trns_offs s) (trns_size s) m3) a"
        by (simp add: m4_def) }
  qed
  have w5: "crc32 e v (idat_offs s) (idat_size s) m6 = m6"
  proof (rule crc32_absorb [where m = m4])
    show "0 \<le> idat_offs s + idat_size s - 4" using P c by (simp add: F)
    show "idat_offs s + idat_size s - 1 < snd v" using P c by (simp add: F sv)
    fix a
    { assume r: "idat_offs s + 4 \<le> a" "a \<le> idat_offs s + idat_size s - 5"
      have "load v m6 a = load v m5 a" using r P c by (intro f6) (simp add: F)
      also have "\<dots> = load v m4 a" using r P c by (intro f5) (simp add: F)
      finally show "load v m6 a = load v m4 a" . }
    { assume r: "idat_offs s + idat_size s - 4 \<le> a" "a \<le> idat_offs s + idat_size s - 1"
      have "load v m6 a = load v m5 a" using r P c by (intro f6) (simp add: F)
      then show "load v m6 a = load v (crc32 e v (idat_offs s) (idat_size s) m4) a"
        by (simp add: m5_def) }
  qed
  have w6: "crc32 e v (iend_offs s) (iend_size s) m6 = m6"
  proof (rule crc32_absorb [where m = m5])
    show "0 \<le> iend_offs s + iend_size s - 4" using P c by (simp add: F)
    show "iend_offs s + iend_size s - 1 < snd v" using P c by (simp add: F sv)
    fix a
    { assume r: "iend_offs s + 4 \<le> a" "a \<le> iend_offs s + iend_size s - 5"
      show "load v m6 a = load v m5 a" using r P c by (intro f6) (simp add: F) }
    { assume r: "iend_offs s + iend_size s - 4 \<le> a" "a \<le> iend_offs s + iend_size s - 1"
      show "load v m6 a = load v (crc32 e v (iend_offs s) (iend_size s) m5) a"
        by (simp add: m6_def) }
  qed
  have "deflate e s' = (contents (raw s) m6, s')"
    by (simp add: deflate_def Let_def s'_def v_def [symmetric] A_def [symmetric]
        a32 [unfolded s'_def] w1 w2 w3 w4 w5 w6)
  then show ?thesis by (simp add: D)
qed

lemma deflate_frame:
  assumes "a \<notin> checksum_fields s"
  shows "load (buffer s) (heap (snd (deflate e s))) a = load (buffer s) (heap s) a"
proof -
  have 1: "a < idat_offs s + idat_size s - 8 \<or> idat_offs s + idat_size s - 8 + 3 < a"
    and 2: "a < ihdr_offs s + ihdr_size s - 4 \<or> ihdr_offs s + ihdr_size s - 1 < a"
    and 3: "a < plte_offs s + plte_size s - 4 \<or> plte_offs s + plte_size s - 1 < a"
    and 4: "a < trns_offs s + trns_size s - 4 \<or> trns_offs s + trns_size s - 1 < a"
    and 5: "a < idat_offs s + idat_size s - 4 \<or> idat_offs s + idat_size s - 1 < a"
    and 6: "a < iend_offs s + iend_size s - 4 \<or> iend_offs s + iend_size s - 1 < a"
    using assms by (auto simp: checksum_fields_def)
  show ?thesis
    unfolding deflate_def Let_def snd_conv
    by (simp add: load_crc32_other [OF 6] load_crc32_other [OF 5] load_crc32_other [OF 4]
        load_crc32_other [OF 3] load_crc32_other [OF 2] load_write4_other [OF 1])
qed

lemma deflate_palette:
  "palette (snd (deflate e s)) = palette s" "pindex (snd (deflate e s)) = pindex s"
  by (simp_all add: deflate_def Let_def)

lemma index_not_checksum:
  assumes wf: "wf s" and "-1 \<le> x" and "x < width s" and "0 \<le> y" and "y < height s"
  shows "index s x y \<notin> checksum_fields s"
proof -
  note F = wf_fields [OF wf]
  note P = wf_pix [OF wf]
  have c: "1 \<le> depth s" and w: "1 \<le> width s" using wf by (simp_all add: wf_def)
  define i where "i = y * (width s + 1) + x + 1"
  have i: "0 \<le> i" "i < pix_size s"
    using logical_position_bounds [of "width s" y "height s" x] w assms(2-5)
    by (simp_all add: i_def F(14))
  have "i div 65535 \<le> (pix_size s - 1) div 65535"
    using i by (intro zdiv_mono1) simp_all
  moreover have "(65534 + pix_size s) div 65535 = (pix_size s - 1) div 65535 + 1"
    by simp
  moreover have "0 \<le> i div 65535" using i by (simp add: pos_imp_zdiv_nonneg_iff)
  ultimately have b: "0 \<le> i div 65535" "i div 65535 + 1 \<le> (65534 + pix_size s) div 65535"
    by simp_all
  have j: "index s x y = idat_offs s + 10 + 5 * (i div 65535 + 1) + i"
    by (simp add: index_def Let_def i_def)
  show ?thesis
    unfolding j checksum_fields_def using i b c P by (simp add: F)
qed

section \<open>A concrete image\<close>

lemma key_black: "color_key (Some 0) (Some 0) (Some 0) (Some 255) = - 16777216"
  by (simp add: color_key_def bor_def shl_def num32_def ToInt32_def)

lemma key_white: "color_key (Some 255) (Some 255) (Some 255) (Some 255) = - 1"
  by (simp add: color_key_def bor_def shl_def num32_def ToInt32_def)

lemma demo_black: "background demo (Str ''black'') = Some (Some 0, Some 0, Some 0, Some 255)"
  by (simp add: background_def truthy_def resolve_def demo_def)

lemma demo_image:
  "\<exists>s. constructor demo 2 2 (Some c) (Str ''black'') = Some (Inr s) \<and>
       width s = 2 \<and> height s = 2 \<and> depth s = (if c = 0 then 8 else c) \<and> pindex s = 1 \<and>
       palette s = [- 16777216 \<mapsto> 0]"
proof -
  obtain s where s: "constructor demo 2 2 (Some c) (Str ''black'') = Some (Inr s)"
    using constructor_returns [of 2 2 demo "Str ''black''" "Some c"] by (auto simp: demo_black)
  have "depth s = (if c = 0 then 8 else c)"
    using constructor_fields(4) [OF s] by (simp add: init_def Let_def)
  then show ?thesis
    using s constructor_fields(1,2) [OF s] constructor_palette [OF s]
    by (auto simp: demo_black key_black)
qed

section \<open>The claims\<close>

subsection \<open>Layout sizes\<close>

text \<open>
  Claim C1, as amended. For every width, height and palette capacity of at least 1, a
  constructed image has pixel region size \<open>p = h * (w + 1)\<close>, framed size
  \<open>2 + p + 5 * floor((65534 + p) / 65535) + 4\<close>, chunk sizes 25, \<open>12 + 3 * c\<close>,
  \<open>12 + c\<close>, 12 + framed size and 12; the signature is 8 bytes long, and the buffer
  that \<open>getBuffer\<close> returns is 8 bytes plus the five chunk sizes long. The constructor
  returns such an image whenever the pixel region is at most \<open>2 ^ 31 - 65537\<close> bytes
  and \<open>color\<close> accepts the background colour. The source takes the floor of
  \<open>(65534 + p) / 65535\<close>, which is the ceiling of \<open>p / 65535\<close>; the ceiling of
  \<open>(65534 + p) / 65535\<close> would count one block too many unless 65535 divides \<open>p - 1\<close>.
\<close>

theorem constructor_layout_sizes:
  assumes "1 \<le> w" and "1 \<le> h" and "1 \<le> c"
  shows "(\<forall>s. constructor e w h (Some c) b = Some (Inr s) \<longrightarrow>
            pix_size s = h * (w + 1) \<and>
            data_size s = 2 + pix_size s + 5 * ((65534 + pix_size s) div 65535) + 4 \<and>
            ihdr_size s = 25 \<and> plte_size s = 12 + 3 * c \<and> trns_size s = 12 + c \<and>
            idat_size s = 12 + data_size s \<and> iend_size s = 12 \<and>
            buffer_size s = ihdr_size s + plte_size s + trns_size s + idat_size s + iend_size s \<and>
            int (length PNG_HEAD) = 8 \<and>
            snd (raw s) = 8 + buffer_size s \<and>
            int (length (fst (getBuffer e s))) = 8 + buffer_size s) \<and>
         (h * (w + 1) \<le> 2147418111 \<and> background e b \<noteq> None \<longrightarrow>
            (\<exists>s. constructor e w h (Some c) b = Some (Inr s)))"
proof (intro conjI allI impI)
  fix s
  assume "constructor e w h (Some c) b = Some (Inr s)"
  then have L: "layout_of s = init w h (Some c) b"
    by (rule layout_of_constructor)
  have c: "c \<noteq> 0" using assms by simp
  have "pix_size (layout_of s) = h * (w + 1)"
    unfolding L by (simp add: init_def Let_def)
  then show "pix_size s = h * (w + 1)" by (simp add: layout_of_def)
  have "data_size (layout_of s) = 2 + pix_size (layout_of s) + 5 * ((65534 + pix_size (layout_of s)) div 65535) + 4"
    unfolding L by (simp add: init_def Let_def)
  then show "data_size s = 2 + pix_size s + 5 * ((65534 + pix_size s) div 65535) + 4"
    by (simp add: layout_of_def)
  have "ihdr_size (layout_of s) = 25" unfolding L by (simp add: init_def Let_def)
  then show "ihdr_size s = 25" by (simp add: layout_of_def)
  have "plte_size (layout_of s) = 12 + 3 * c" unfolding L using c by (simp add: init_def Let_def)
  then show "plte_size s = 12 + 3 * c" by (simp add: layout_of_def)
  have "trns_size (layout_of s) = 12 + c" unfolding L using c by (simp add: init_def Let_def)
  then show "trns_size s = 12 + c" by (simp add: layout_of_def)
  have "idat_size (layout_of s) = 12 + data_size (layout_of s)" unfolding L by (simp add: init_def Let_def)
  then show "idat_size s = 12 + data_size s" by (simp add: layout_of_def)
  have "iend_size (layout_of s) = 12" unfolding L by (simp add: init_def Let_def)
  then show "iend_size s = 12" by (simp add: layout_of_def)
  have "buffer_size (layout_of s) = ihdr_size (layout_of s) + plte_size (layout_of s) + trns_size (layout_of s) + idat_size (layout_of s) + iend_size (layout_of s)"
    unfolding L by (simp add: init_def Let_def)
  then show bs: "buffer_size s = ihdr_size s + plte_size s + trns_size s + idat_size s + iend_size s"
    by (simp add: layout_of_def)
  show "int (length PNG_HEAD) = 8" by (simp add: PNG_HEAD_def)
  have "snd (raw (layout_of s)) = 8 + buffer_size (layout_of s)"
    unfolding L by (simp add: init_def Let_def PNG_HEAD_def)
  then show r: "snd (raw s) = 8 + buffer_size s" by (simp add: layout_of_def)
  have "0 \<le> (65534 + h * (w + 1)) div 65535" using assms by (simp add: pos_imp_zdiv_nonneg_iff)
  then have "0 \<le> buffer_size (layout_of s)"
    unfolding L using assms by (simp add: init_def Let_def)
  then have "0 \<le> snd (raw s)" using r by (simp add: layout_of_def)
  then show "int (length (fst (getBuffer e s))) = 8 + buffer_size s"
    using r by (simp add: getBuffer_def deflate_def Let_def length_contents)
next
  assume "h * (w + 1) \<le> 2147418111 \<and> background e b \<noteq> None"
  then show "\<exists>s. constructor e w h (Some c) b = Some (Inr s)"
    by (intro constructor_returns) simp_all
qed

theorem constructor_layout_sizes_witness:
  "\<exists>s. constructor demo 1 1 (Some 1) Undefined = Some (Inr s) \<and>
       pix_size s = 2 \<and> data_size s = 13 \<and> ihdr_size s = 25 \<and> plte_size s = 15 \<and>
       trns_size s = 13 \<and> idat_size s = 25 \<and> iend_size s = 12 \<and> buffer_size s = 90 \<and>
       length (fst (getBuffer demo s)) = 98"
proof -
  have T: "background demo Undefined \<noteq> None"
    by (simp add: background_def truthy_def resolve_def)
  from constructor_layout_sizes [of 1 1 1 demo Undefined] T
  obtain s where s: "constructor demo 1 1 (Some 1) Undefined = Some (Inr s)" by auto
  with constructor_layout_sizes [of 1 1 1 demo Undefined]
  have "pix_size s = 2 \<and> data_size s = 13 \<and> ihdr_size s = 25 \<and> plte_size s = 15 \<and>
       trns_size s = 13 \<and> idat_size s = 25 \<and> iend_size s = 12 \<and> buffer_size s = 90 \<and>
       length (fst (getBuffer demo s)) = 98" by auto
  with s show ?thesis by blast
qed

text \<open>
  Claim C1 as stated fails on the 1 x 1 image of capacity 1: its pixel region is 2 bytes
  and its framed size is 13, where the claim's formula gives
  \<open>2 + 2 + 5 * ceil(65536 / 65535) + 4 = 18\<close>.
\<close>

theorem constructor_layout_ceiling_counterexample:
  "map_option (map_sum id pix_size) (constructor demo 1 1 (Some 1) Undefined) = Some (Inr 2) \<and>
   map_option (map_sum id data_size) (constructor demo 1 1 (Some 1) Undefined) = Some (Inr 13) \<and>
   (13 :: int) \<noteq> 2 + 2 + 5 * \<lceil>(65534 + 2) / 65535 :: real\<rceil> + 4"
  by (simp add: constructor_def init_def Let_def block_headers.simps shl_def ToInt32_def
      truthy_def color_def resolve_def register_def)

subsection \<open>The Adler-32 walk against the pixel addressing\<close>

text \<open>
  Claim C2 does not hold of the code. On the image of width 1, height 65536 and capacity
  1, the logical position of the pixel \<open>(0, 32767)\<close> is 65535, the first of the second
  stored block. \<open>index\<close> gives the buffer offset \<open>53 + 10 + 5 * 2 + 65535 = 65608\<close>;
  the Adler-32 walk of \<open>deflate\<close> reads at \<open>(53 + 15) * 2 + 65535 = 65671\<close>, since it
  multiplies the whole base offset, not the 5 bytes of a block header, by the block number.
\<close>

theorem adler_walk_address_mismatch:
  "map_option (map_sum id (\<lambda>s. (index s 0 32767, adler_addr s 0 32767)))
     (constructor demo 1 65536 (Some 1) Undefined) = Some (Inr (65608, 65671))"
  by (simp add: constructor_alt init_def Let_def headers_131072 background_def truthy_def resolve_def
      register_def index_def adler_addr_def)

subsection \<open>The stored-block headers\<close>

text \<open>
  Claim C3 does not hold of the code. On the image of width 1, height 65536 and capacity
  1 the pixel region is 131072 bytes, three blocks of 65535, 65535 and 2 bytes. The
  constructor computes three headers, all with the flag byte 0 and the length 65535, and
  the five bytes of the third header in the buffer are \<open>00 FF FF 00 00\<close>, where the
  claim has the flag 1, the length 2 and its complement: \<open>01 02 00 FD FF\<close>.
\<close>

theorem block_headers_last_block_not_final:
  "map_option (map_sum id (\<lambda>s. (idat_offs s, pix_size s, block_headers (idat_offs s) (pix_size s) 0,
       map (load (buffer s) (heap s)) [131143, 131144, 131145, 131146, 131147])))
     (constructor demo 1 65536 (Some 1) Undefined) =
   Some (Inr (53, 131072,
     Some [(63, CODE_NUL, 65535), (65603, CODE_NUL, 65535), (131143, CODE_NUL, 65535)],
     [Some 0, Some 255, Some 255, Some 0, Some 0]))"
  by (simp add: constructor_alt init_def Let_def headers_131072 background_def truthy_def resolve_def
      register_def write_headers_def write_header_def write2lsb_def load_store CODE_NUL_def
      ToUint8_def bnot_def ToInt32_def PNG_HEAD_def)

subsection \<open>The image of width 1 and height 65536\<close>

text \<open>
  Claim C4, as amended. Every constructed image of width 1 and height 65536 has a pixel
  region of 131072 bytes; the constructor computes exactly 3 stored-block headers for it,
  at the buffer offsets \<open>idat_offs + 10 + 65540 * k\<close> for \<open>k = 0, 1, 2\<close>, and the
  pixel-addressing offset of \<open>(0, 65535)\<close> lands after the third header: it is the
  offset of the third header, plus the 5 bytes of the header, plus 1.
\<close>

theorem tall_image_three_headers:
  assumes "constructor e 1 65536 d b = Some (Inr s)"
  shows "\<exists>hs. block_headers (idat_offs s) (pix_size s) 0 = Some hs \<and> length hs = 3 \<and>
           map fst hs = [idat_offs s + 10, idat_offs s + 10 + 65540, idat_offs s + 10 + 2 * 65540] \<and>
           index s 0 65535 = (idat_offs s + 10 + 2 * 65540) + 5 + 1"
proof -
  note F = constructor_fields [OF assms]
  have p: "pix_size s = 131072" by (simp add: F(6) init_def Let_def)
  have w: "width s = 1" by (rule F(1))
  show ?thesis by (simp add: p headers_131072 index_def Let_def w)
qed

theorem tall_image_three_headers_witness:
  "\<exists>s. constructor demo 1 65536 (Some 1) Undefined = Some (Inr s) \<and>
       map_option (map fst) (block_headers (idat_offs s) (pix_size s) 0) = Some [63, 65603, 131143] \<and>
       index s 0 65535 = 131149"
proof -
  have "background demo Undefined \<noteq> None"
    by (simp add: background_def truthy_def resolve_def)
  then obtain s where s: "constructor demo 1 65536 (Some 1) Undefined = Some (Inr s)"
    using constructor_returns [of 65536 1 demo Undefined "Some 1"] by auto
  have i: "idat_offs s = 53" using constructor_fields(5) [OF s] by (simp add: init_def Let_def)
  show ?thesis using tall_image_three_headers [OF s] s by (auto simp: i)
qed

text \<open>
  Claim C4 as stated fails: on the image of width 1, height 65536 and capacity 1 the
  constructor does not compute 2 headers (it computes 3), and the offset the Adler-32
  walk reads for \<open>(0, 65535)\<close> is not the pixel-addressing offset.
\<close>

theorem tall_image_two_headers_counterexample:
  "\<not> (map_option (map_sum id (\<lambda>s. (map_option length (block_headers (idat_offs s) (pix_size s) 0),
             index s 0 65535 = adler_addr s 0 65535)))
        (constructor demo 1 65536 (Some 1) Undefined) = Some (Inr (Some 2, True)))"
  by (simp add: constructor_alt init_def Let_def headers_131072 background_def truthy_def resolve_def
      register_def index_def adler_addr_def)

subsection \<open>The palette at capacity\<close>

text \<open>
  Claim C5. In every state of a constructed image whose palette holds as many colours as
  its capacity, \<open>color\<close> on a colour that is not in the palette raises no error and
  returns index 0; the object is as before but for the diagnostic on the console: the
  palette, the next index and every byte of the buffer are unchanged.
\<close>

theorem color_at_capacity_falls_back:
  assumes "constructor e w h d b = Some (Inr s0)"
    and "s = run e cs s0"
    and "int (card (dom (palette s))) = depth s"
    and "resolve e red green blue alpha = Some (r, g, bl, a)"
    and "palette s (color_key r g bl a) = None"
  shows "color e red green blue alpha s =
           (Inr 0, s\<lparr>console := console s @ [''node-pnglib: depth is not enough, set up it for more'']\<rparr>)"
proof -
  have "counted s" using assms(1,2) by (simp add: counted_constructor counted_run)
  then have "pindex s = depth s" using assms(3) by (simp add: counted_def)
  then show ?thesis using assms(4,5) by (simp add: color_def register_def CODE_NUL_index_def)
qed

theorem color_at_capacity_falls_back_witness:
  "\<exists>s. constructor demo 2 2 (Some 1) (Str ''black'') = Some (Inr s) \<and>
       color demo (Str ''white'') None None None s =
         (Inr 0, s\<lparr>console := console s @ [''node-pnglib: depth is not enough, set up it for more'']\<rparr>)"
proof -
  obtain s where s: "constructor demo 2 2 (Some 1) (Str ''black'') = Some (Inr s)"
    and d: "depth s = 1" and p: "palette s = [- 16777216 \<mapsto> 0]"
    using demo_image [of 1] by auto
  have r: "resolve demo (Str ''white'') None None None = Some (Some 255, Some 255, Some 255, Some 255)"
    by (simp add: resolve_def demo_def)
  have "color demo (Str ''white'') None None None s =
         (Inr 0, s\<lparr>console := console s @ [''node-pnglib: depth is not enough, set up it for more'']\<rparr>)"
    using color_at_capacity_falls_back [OF s, of s "[]" "Str ''white''" None None None
        "Some 255" "Some 255" "Some 255" "Some 255"] r
    by (simp add: run_def d p key_white)
  with s show ?thesis by blast
qed

subsection \<open>Pixels outside the image\<close>

text \<open>
  Claim C6. For coordinates with \<open>x < 0\<close>, \<open>y < 0\<close>, \<open>x \<ge> width\<close> or \<open>y \<ge> height\<close> and
  any colour argument, \<open>setPixel\<close> returns without an error and leaves the whole object
  as it was: the buffer, the palette and the next index.
\<close>

theorem setPixel_outside_is_noop:
  assumes "x < 0 \<or> y < 0 \<or> x \<ge> width s \<or> y \<ge> height s"
  shows "setPixel e x y rgba s = (Inr (), s)"
  using assms by (simp add: setPixel_def)

theorem setPixel_outside_is_noop_witness:
  "\<exists>s. constructor demo 2 2 (Some 2) (Str ''black'') = Some (Inr s) \<and>
       setPixel demo (- 1) 0 (Str ''white'') s = (Inr (), s) \<and>
       setPixel demo 2 0 (Str ''white'') s = (Inr (), s)"
proof -
  obtain s where s: "constructor demo 2 2 (Some 2) (Str ''black'') = Some (Inr s)"
    and w: "width s = 2"
    using demo_image [of 2] by auto
  have "setPixel demo (- 1) 0 (Str ''white'') s = (Inr (), s)"
    using setPixel_outside_is_noop [of "- 1" 0 s demo "Str ''white''"] by simp
  moreover have "setPixel demo 2 0 (Str ''white'') s = (Inr (), s)"
    using setPixel_outside_is_noop [of 2 0 s demo "Str ''white''"] w by simp
  ultimately show ?thesis using s by blast
qed

subsection \<open>Finalizing twice\<close>

text \<open>
  Claim C7. In every state of a constructed image (width, height and capacity at least
  1), \<open>getBuffer\<close> called twice in a row returns the same bytes, and so does
  \<open>getBase64\<close>, alone or mixed with \<open>getBuffer\<close>. A call leaves the palette and the
  next index as they were and changes no byte of the buffer outside the Adler-32 trailer
  and the five CRC-32 fields; in particular no filter byte and no pixel byte changes.
\<close>

theorem getBuffer_twice_same_bytes:
  assumes "constructor e w h d b = Some (Inr s0)"
    and "1 \<le> w" and "1 \<le> h" and "1 \<le> depth s0"
    and "s = run e cs s0"
  shows "fst (getBuffer e (snd (getBuffer e s))) = fst (getBuffer e s) \<and>
         fst (getBase64 e (snd (getBase64 e s))) = fst (getBase64 e s) \<and>
         fst (getBuffer e (snd (getBase64 e s))) = fst (getBuffer e s) \<and>
         palette (snd (getBuffer e s)) = palette s \<and>
         pindex (snd (getBuffer e s)) = pindex s \<and>
         (\<forall>a. a \<notin> checksum_fields s \<longrightarrow>
              load (buffer s) (heap (snd (getBuffer e s))) a = load (buffer s) (heap s) a) \<and>
         (\<forall>x y. -1 \<le> x \<and> x < width s \<and> 0 \<le> y \<and> y < height s \<longrightarrow>
              load (buffer s) (heap (snd (getBuffer e s))) (index s x y) =
              load (buffer s) (heap s) (index s x y))"
proof -
  have "wf s0" using assms(1-4) by (rule wf_constructor)
  then have wf: "wf s" by (simp add: assms(5) wf_run)
  have I: "deflate e (snd (deflate e s)) = deflate e s" using wf by (rule deflate_idem)
  have px: "load (buffer s) (heap (snd (deflate e s))) (index s x y) =
              load (buffer s) (heap s) (index s x y)"
    if "-1 \<le> x \<and> x < width s \<and> 0 \<le> y \<and> y < height s" for x y
    using that wf by (intro deflate_frame index_not_checksum) simp_all
  show ?thesis
    by (simp add: getBuffer_def getBase64_def Let_def I deflate_palette deflate_frame px)
qed

theorem getBuffer_twice_same_bytes_witness:
  "\<exists>s0. constructor demo 2 2 (Some 2) (Str ''black'') = Some (Inr s0) \<and>
       fst (getBuffer demo (snd (getBuffer demo (run demo [SetPixel 0 0 (Str ''white'')] s0)))) =
       fst (getBuffer demo (run demo [SetPixel 0 0 (Str ''white'')] s0))"
proof -
  obtain s where s: "constructor demo 2 2 (Some 2) (Str ''black'') = Some (Inr s)"
    and d: "depth s = 2"
    using demo_image [of 2] by auto
  from getBuffer_twice_same_bytes [OF s _ _ _ refl, of "[SetPixel 0 0 (Str ''white'')]"] d s
  show ?thesis by auto
qed

subsection \<open>A colour registered twice\<close>

text \<open>
  Claim C8. \<open>color\<close> on a colour that is in the palette returns its index and leaves
  the whole object as it was: the palette, the next index and the PLTE and tRNS bytes.
  So when a call of \<open>color\<close> has registered its colour, the same call again returns
  the same index and changes nothing.
\<close>

theorem color_registered_is_idempotent:
  assumes "resolve e red green blue alpha = Some (r, g, bl, a)"
  shows "(\<forall>i. palette s (color_key r g bl a) = Some i \<longrightarrow>
            color e red green blue alpha s = (Inr i, s)) \<and>
         (\<forall>j s1. color e red green blue alpha s = (Inr j, s1) \<and> palette s1 (color_key r g bl a) \<noteq> None \<longrightarrow>
            color e red green blue alpha s1 = (Inr j, s1))"
proof (intro conjI allI impI)
  fix i assume "palette s (color_key r g bl a) = Some i"
  then show "color e red green blue alpha s = (Inr i, s)"
    using assms by (simp add: color_def register_def)
next
  fix j s1
  assume H: "color e red green blue alpha s = (Inr j, s1) \<and> palette s1 (color_key r g bl a) \<noteq> None"
  then have R: "register r g bl a s = (Inr j, s1)" using assms by (simp add: color_def)
  have "palette s1 (color_key r g bl a) = Some j"
    using R H by (auto simp: register_def Let_def split: if_splits)
  then show "color e red green blue alpha s1 = (Inr j, s1)"
    using assms by (simp add: color_def register_def)
qed

theorem color_registered_is_idempotent_witness:
  "\<exists>s. constructor demo 2 2 (Some 2) (Str ''black'') = Some (Inr s) \<and>
       color demo (Str ''black'') None None None s = (Inr 0, s) \<and>
       color demo (Str ''white'') None None None (snd (color demo (Str ''white'') None None None s)) =
         (Inr 1, snd (color demo (Str ''white'') None None None s))"
proof -
  obtain s where s: "constructor demo 2 2 (Some 2) (Str ''black'') = Some (Inr s)"
    and d: "depth s = 2" and p: "palette s = [- 16777216 \<mapsto> 0]" and i: "pindex s = 1"
    using demo_image [of 2] by auto
  have rb: "resolve demo (Str ''black'') None None None = Some (Some 0, Some 0, Some 0, Some 255)"
    by (simp add: resolve_def demo_def)
  have rw: "resolve demo (Str ''white'') None None None = Some (Some 255, Some 255, Some 255, Some 255)"
    by (simp add: resolve_def demo_def)
  have 1: "color demo (Str ''black'') None None None s = (Inr 0, s)"
    using color_registered_is_idempotent [OF rb, of s] by (simp add: p key_black)
  define s1 where "s1 = snd (color demo (Str ''white'') None None None s)"
  have c: "color demo (Str ''white'') None None None s = (Inr 1, s1)"
    unfolding s1_def by (simp add: color_def rw register_def Let_def p d i key_white)
  have "palette s1 (- 1) \<noteq> None"
    unfolding s1_def by (simp add: color_def rw register_def Let_def p d i key_white)
  then have 2: "color demo (Str ''white'') None None None s1 = (Inr 1, s1)"
    using color_registered_is_idempotent [OF rw, of s] c by (simp add: key_white)
  show ?thesis using s 1 2 unfolding s1_def by blast
qed

subsection \<open>A colour name the parser does not know\<close>

text \<open>
  Claim C9. When the parser cannot resolve a colour name, \<open>color\<close> on that name fails
  with the invalid-colour error, and so does \<open>setPixel\<close> with that name at coordinates
  inside the image; the failing call leaves the whole object, palette and buffer, as it
  was.
\<close>

theorem color_unknown_name_fails:
  assumes "RGBA e name = None"
  shows "color e (Str name) green blue alpha s = (Inl InvalidColor, s) \<and>
         (0 \<le> x \<and> x < width s \<and> 0 \<le> y \<and> y < height s \<longrightarrow>
            setPixel e x y (Str name) s = (Inl InvalidColor, s))"
  using assms by (simp add: color_def resolve_def setPixel_def Let_def)

theorem color_unknown_name_fails_witness:
  "\<exists>s. constructor demo 2 2 (Some 2) (Str ''black'') = Some (Inr s) \<and>
       color demo (Str ''mauve'') None None None s = (Inl InvalidColor, s) \<and>
       setPixel demo 0 0 (Str ''mauve'') s = (Inl InvalidColor, s)"
proof -
  obtain s where s: "constructor demo 2 2 (Some 2) (Str ''black'') = Some (Inr s)"
    and w: "width s = 2" "height s = 2"
    using demo_image [of 2] by auto
  have "RGBA demo ''mauve'' = None" by (simp add: demo_def)
  from color_unknown_name_fails [OF this, of None None None s 0 0] w s show ?thesis by auto
qed

subsection \<open>Index 0 is the background colour\<close>

text \<open>
  Claim C10. A constructed image (width, height and capacity at least 1) has registered
  its background colour, which is fully transparent black when no background is given.
  After any sequence of calls of \<open>color\<close>, \<open>setPixel\<close>, \<open>getBuffer\<close> and
  \<open>getBase64\<close>, palette index 0 still belongs to that colour: its key has index 0, no
  other key has, and entry 0 of the PLTE and tRNS chunks holds its bytes. So the index 0
  that \<open>color\<close> returns at capacity for a colour it cannot register is the index of
  the background colour.
\<close>

theorem background_keeps_index_0:
  assumes "constructor e w h d b = Some (Inr s0)"
    and "1 \<le> w" and "1 \<le> h" and "1 \<le> depth s0"
  shows "\<exists>r g bl a. background e b = Some (r, g, bl, a) \<and>
           (b = Undefined \<longrightarrow> r = Some 0 \<and> g = Some 0 \<and> bl = Some 0 \<and> a = Some 0) \<and>
           (\<forall>cs. slot0 (run e cs s0) r g bl a \<and>
              (\<forall>r' g' b' a'. pindex (run e cs s0) = depth (run e cs s0) \<and>
                   palette (run e cs s0) (color_key r' g' b' a') = None \<longrightarrow>
                 fst (register r' g' b' a' (run e cs s0)) = Inr 0 \<and>
                 palette (run e cs s0) (color_key r g bl a) = Some 0))"
proof -
  obtain r g bl a where bgc: "background e b = Some (r, g, bl, a)"
    and st: "started s0" and sl: "slot0 s0 r g bl a"
    using constructor_slot0 [OF assms] by blast
  have u: "b = Undefined \<longrightarrow> r = Some 0 \<and> g = Some 0 \<and> bl = Some 0 \<and> a = Some 0"
    using bgc by (auto simp: background_def truthy_def resolve_def)
  have inv: "slot0 (run e cs s0) r g bl a" for cs
    using slot0_run [OF st sl] by simp
  have fb: "fst (register r' g' b' a' t) = Inr 0"
    if "pindex t = depth t" and "palette t (color_key r' g' b' a') = None" for r' g' b' a' t
    using that by (simp add: register_def CODE_NUL_index_def)
  have "palette (run e cs s0) (color_key r g bl a) = Some 0" for cs
    using inv [of cs] by (simp add: slot0_def)
  then show ?thesis using bgc u inv fb by blast
qed

theorem background_keeps_index_0_witness:
  "\<exists>s0. constructor demo 2 2 (Some 2) (Str ''black'') = Some (Inr s0) \<and>
        slot0 (run demo [SetPixel 0 0 (Str ''white''), Color (Num 1) (Some 2) (Some 3) None, GetBuffer] s0)
          (Some 0) (Some 0) (Some 0) (Some 255)"
proof -
  obtain s where s: "constructor demo 2 2 (Some 2) (Str ''black'') = Some (Inr s)"
    and d: "depth s = 2"
    using demo_image [of 2] by auto
  from background_keeps_index_0 [OF s] d s show ?thesis by (auto simp: demo_black)
qed

end
